(* ===== verification/Filter_Prelude.thy ===== *)
theory Filter_Prelude
  imports Main "HOL-Library.Word"
begin

text \<open>
  Shared vocabulary of the development: the machine-integer types of the C++ sources, the
  byte-swapping primitives both halves of the program use (\<open>__builtin_bswap16\<close>, \<open>htons\<close>,
  \<open>rte_be_to_cpu_16\<close>, \<open>rte_be_to_cpu_32\<close>; the host is little endian, as x86-64 is), the reading
  of byte lists as little-endian and big-endian words, and the generic list and word lemmas
  that several components use.
\<close>

unbundle bit_operations_syntax

section \<open>Machine integers\<close>

type_synonym u8 = "8 word"
type_synonym u16 = "16 word"
type_synonym u32 = "32 word"
type_synonym u64 = "64 word"
type_synonym i32 = "32 word"

named_theorems bit_rules \<open>bit-level characterisations of word operations\<close>

section \<open>Byte order\<close>

text \<open>The byte swaps of \<open>uint16_t\<close> and \<open>uint32_t\<close>.\<close>

definition bswap16 :: "u16 \<Rightarrow> u16" where
  "bswap16 x = push_bit 8 x OR drop_bit 8 x"

definition bswap32 :: "u32 \<Rightarrow> u32" where
  "bswap32 x = push_bit 24 (x AND 0xFF) OR push_bit 8 (x AND 0xFF00)
     OR (drop_bit 8 x AND 0xFF00) OR drop_bit 24 x"

lemma bit_bswap16 [bit_rules]:
  "bit (bswap16 x) n \<longleftrightarrow> (n < 8 \<and> bit x (n + 8)) \<or> (8 \<le> n \<and> n < 16 \<and> bit x (n - 8))"
  by (auto simp: bswap16_def bit_simps dest: bit_imp_le_length) (auto simp: add.commute)

lemma bswap16_invol [simp]: "bswap16 (bswap16 x) = x"
  by (rule bit_eqI) (auto simp: bit_bswap16)

lemma bswap16_inject [simp]: "bswap16 x = bswap16 y \<longleftrightarrow> x = y"
  by (metis bswap16_invol)

lemma bswap16_eq_0 [simp]: "bswap16 x = 0 \<longleftrightarrow> x = 0"
proof -
  have "bswap16 0 = 0" by (simp add: bswap16_def)
  then show ?thesis by (metis bswap16_invol)
qed

text \<open>Little-endian and big-endian readings of a byte sequence.\<close>

primrec le_word :: "u8 list \<Rightarrow> 'a::len word" where
  "le_word [] = 0"
| "le_word (b # bs) = (ucast b OR push_bit 8 (le_word bs))"

definition be_word :: "u8 list \<Rightarrow> 'a::len word" where
  "be_word bs = le_word (rev bs)"

lemma bit_le_word [bit_rules]:
  "bit (le_word bs :: 'a::len word) n \<longleftrightarrow>
     n < LENGTH('a) \<and> n < 8 * length bs \<and> bit (bs ! (n div 8)) (n mod 8)"
proof (induction bs arbitrary: n)
  case Nil
  then show ?case by simp
next
  case (Cons b bs)
  show ?case
  proof (cases "n < 8")
    case True
    then show ?thesis by (auto simp: bit_simps)
  next
    case False
    then have d: "n div 8 = Suc ((n - 8) div 8)" and m: "n mod 8 = (n - 8) mod 8"
      by (simp_all add: le_div_geq le_mod_geq)
    from False have "\<not> bit b n" by (auto dest: bit_imp_le_length)
    with False d m show ?thesis
      using Cons.IH [of "n - 8"] by (auto simp: bit_simps)
  qed
qed

text \<open>The swaps turn one byte order into the other.\<close>

lemma bswap16_be_word: "bswap16 (be_word [x, y]) = le_word [x, y]"
  by (rule bit_word_eqI) (auto simp: bit_bswap16 be_word_def bit_simps dest: bit_imp_le_length)

lemma bswap16_le_word: "bswap16 (le_word [x, y]) = be_word [x, y]"
  by (metis bswap16_be_word bswap16_invol)

lemma byte_masks: "(0xFF :: u32) = mask 8" "(0xFF00 :: u32) = push_bit 8 (mask 8)"
  by (simp_all add: mask_eq_exp_minus_1 push_bit_eq_mult)

lemma bit_bswap32 [bit_rules]:
  "bit (bswap32 x) n \<longleftrightarrow> n < 32 \<and> bit x (8 * (3 - n div 8) + n mod 8)"
proof (cases "n < 32")
  case True
  then have "n \<in> {..<32}" by simp
  then show ?thesis
    unfolding bswap32_def byte_masks
    by (simp only: lessThan_nat_numeral pred_numeral_simps arith_simps lessThan_0 insert_iff empty_iff)
      (elim disjE FalseE; auto simp: bit_simps numeral_2_eq_2 [symmetric] dest: bit_imp_le_length)
next
  case False
  then show ?thesis by (auto dest: bit_imp_le_length)
qed

lemma bswap32_le_word: "bswap32 (le_word [a, b, c, d]) = be_word [a, b, c, d]"
proof (rule bit_word_eqI)
  fix n
  assume "n < LENGTH(32)"
  then have n: "n div 8 < 4" by simp
  have r: "8 * (3 - n div 8) + n mod 8 < 32" using n by presburger
  have t: "Suc (Suc (Suc 0)) = 3" by simp
  have i: "(8 * (3 - n div 8) + n mod 8) div 8 = 3 - n div 8" "(8 * (3 - n div 8) + n mod 8) mod 8 = n mod 8"
    by simp_all
  show "bit (bswap32 (le_word [a, b, c, d])) n = bit (be_word [a, b, c, d] :: u32) n"
    using rev_nth [of "n div 8" "[a, b, c, d]"] n
    by (simp add: bit_bswap32 be_word_def bit_le_word i r t del: le_word.simps)
qed
text \<open>Zero extension is injective.\<close>

lemma ucast_extend_inject:
  fixes x y :: "'a::len word"
  assumes "LENGTH('a) \<le> LENGTH('b)"
  shows "(ucast x :: 'b::len word) = ucast y \<longleftrightarrow> x = y"
proof
  assume "(ucast x :: 'b word) = ucast y"
  then have e: "bit (ucast x :: 'b word) n = bit (ucast y :: 'b word) n" for n by simp
  show "x = y"
  proof (rule bit_word_eqI)
    fix n
    assume "n < LENGTH('a)"
    then show "bit x n = bit y n" using e [of n] assms by (simp add: bit_simps)
  qed
qed simp

end
