(* ===== verification/Ap_Uint.thy ===== *)
theory Ap_Uint
  imports Filter_Prelude
begin

text \<open>
  The arbitrary-width integers of the HLS dialect, as far as the hardware sources use them:
  \<open>ap_uint<N>\<close> is the type \<open>N word\<close>, and \<open>x.range(hi, lo)\<close> is \<open>ap_range hi lo x\<close> when it is
  read and \<open>ap_set_range hi lo x v\<close> when it is assigned. The bit-level laws of the two are
  the only facts later theories use.
\<close>

unbundle bit_operations_syntax

definition ap_range :: "nat \<Rightarrow> nat \<Rightarrow> 'a::len word \<Rightarrow> 'b::len word" where
  "ap_range hi lo x = take_bit (Suc hi - lo) (ucast (drop_bit lo x))"

definition ap_set_range :: "nat \<Rightarrow> nat \<Rightarrow> 'a::len word \<Rightarrow> 'b::len word \<Rightarrow> 'a word" where
  "ap_set_range hi lo x v =
     (x AND NOT (push_bit lo (mask (Suc hi - lo)))) OR
     push_bit lo (take_bit (Suc hi - lo) (ucast v))"

lemma bit_ap_range [bit_rules]:
  "bit (ap_range hi lo (x :: 'a::len word) :: 'b::len word) n \<longleftrightarrow>
     n < LENGTH('b) \<and> lo + n \<le> hi \<and> bit x (lo + n)"
  by (auto simp: ap_range_def bit_simps dest: bit_imp_le_length)

lemma bit_ap_set_range [bit_rules]:
  "bit (ap_set_range hi lo (x :: 'a::len word) (v :: 'b::len word)) n \<longleftrightarrow>
     n < LENGTH('a) \<and> (if lo \<le> n \<and> n \<le> hi then bit v (n - lo) else bit x n)"
  by (auto simp: ap_set_range_def bit_simps dest: bit_imp_le_length)

lemma ap_range_set_same [simp]:
  fixes v :: "'b::len word"
  assumes "hi < LENGTH('a)" and "Suc hi - lo = LENGTH('b)"
  shows "(ap_range hi lo (ap_set_range hi lo (x :: 'a::len word) v) :: 'b word) = v"
  using assms by (intro bit_eqI) (auto simp: bit_rules)

lemma ap_range_set_disjoint [simp]:
  assumes "hi < lo' \<or> hi' < lo"
  shows "ap_range hi lo (ap_set_range hi' lo' (x :: 'a::len word) v) = ap_range hi lo x"
  using assms by (intro bit_eqI) (auto simp: bit_rules dest: bit_imp_le_length)

lemma ap_set_range_self [simp]:
  assumes "Suc hi - lo \<le> LENGTH('b)"
  shows "ap_set_range hi lo (x :: 'a::len word) (ap_range hi lo x :: 'b::len word) = x"
  using assms by (intro bit_eqI) (auto simp: bit_rules dest: bit_imp_le_length)

lemma ap_range_cong:
  assumes "\<And>n. lo \<le> n \<Longrightarrow> n \<le> hi \<Longrightarrow> bit x n = bit y n"
  shows "ap_range hi lo x = ap_range hi lo y"
  using assms by (intro bit_eqI) (auto simp: bit_rules)

text \<open>Equality of two updated buses at one bit, and outside an update.\<close>

lemma bit_ap_set_range_cong:
  fixes x y :: "'a::len word"
  assumes "\<not> (lo \<le> n \<and> n \<le> hi) \<Longrightarrow> bit x n = bit y n"
  shows "bit (ap_set_range hi lo x v) n = bit (ap_set_range hi lo y v) n"
  using assms by (simp add: bit_ap_set_range)

lemma bit_ap_set_range_outside [simp]:
  "n < lo \<or> hi < n \<Longrightarrow> bit (ap_set_range hi lo x v) n = bit x n"
  by (auto simp: bit_ap_set_range dest: bit_imp_le_length)

section \<open>Byte lanes\<close>

text \<open>
  A bus holds the bytes of a packet in increasing lanes: byte \<open>i\<close> is bits \<open>8 * i\<close> to
  \<open>8 * i + 7\<close>. A field on byte boundaries is the little-endian word of its bytes.
\<close>

lemma ap_range_le_word:
  assumes "8 * (k + m) \<le> LENGTH('a)" and "k + m \<le> length bs" and "LENGTH('b) = 8 * m"
    and "Suc hi = 8 * (k + m)" and "lo = 8 * k"
  shows "(ap_range hi lo (le_word bs :: 'a::len word) :: 'b::len word) = le_word (take m (drop k bs))"
proof (rule bit_word_eqI)
  fix n
  assume "n < LENGTH('b)"
  then have n: "n < 8 * m" using assms(3) by simp
  then have "n div 8 < m" by auto
  with n assms show "bit (ap_range hi lo (le_word bs :: 'a word) :: 'b word) n =
      bit (le_word (take m (drop k bs)) :: 'b word) n"
    by (auto simp: bit_rules)
qed

lemma le_word_single [simp]: "(le_word [b] :: u8) = b"
  by simp

lemma byte_of_le_word:
  assumes "8 * Suc i \<le> LENGTH('a)" and "i < length bs"
  shows "(ap_range (8 * i + 7) (8 * i) (le_word bs :: 'a::len word) :: u8) = bs ! i"
proof -
  have "(ap_range (8 * i + 7) (8 * i) (le_word bs :: 'a word) :: u8) = le_word (take 1 (drop i bs))"
    using assms by (intro ap_range_le_word) auto
  also have "take 1 (drop i bs) = [bs ! i]"
    using assms(2) by (simp add: take_Suc_conv_app_nth)
  finally show ?thesis by simp
qed

lemma le_word_inject:
  assumes "length xs = length ys" and "8 * length xs \<le> LENGTH('a)"
  shows "(le_word xs :: 'a::len word) = le_word ys \<longleftrightarrow> xs = ys"
proof
  assume eq: "(le_word xs :: 'a word) = le_word ys"
  show "xs = ys"
  proof (rule nth_equalityI)
    fix i
    assume "i < length xs"
    then show "xs ! i = ys ! i"
      using eq assms byte_of_le_word [of i xs, where ?'a = 'a] byte_of_le_word [of i ys, where ?'a = 'a]
      by simp
  qed (fact assms(1))
qed simp

end
