(* ===== verification/Toeplitz_Hash.thy ===== *)
theory Toeplitz_Hash
  imports Ap_Uint
begin

text \<open>
  The hash table of the filter core (\<open>hash.h\<close>, \<open>hash.cc\<close>): the class \<open>ToeplitzHash\<close> with its
  320-bit key and its 32 slots, the constructor, the window selection, the unrolled hash, and
  the two operations \<open>lookup\<close> and \<open>insert\<close>, which address a slot by the low bits of the hash
  and keep no copy of the address. The locale \<open>slot_table\<close> is the contract the filter core
  relies on; it is interpreted on the model's own operations.
\<close>

unbundle bit_operations_syntax

section \<open>State and constants\<close>

definition HASH_TABLE_SIZE :: nat where
  "HASH_TABLE_SIZE = 32"

text \<open>\<open>__builtin_clz\<close> of a 32-bit value: the number of leading zero bits.\<close>

definition clz32 :: "u32 \<Rightarrow> nat" where
  "clz32 x = length (takeWhile (\<lambda>i. \<not> bit x i) (rev [0..<32]))"

definition HASH_BITS :: nat where
  "HASH_BITS = 4 * 8 - 1 - clz32 (of_nat HASH_TABLE_SIZE)"

definition HASH_MASK :: u32 where
  "HASH_MASK = ucast (push_bit HASH_BITS (1 :: u64) - 1)"

record toeplitz_hash =
  toeplitz_key :: "320 word"
  table :: "u32 list"

text \<open>The storage of a static object before its constructor runs.\<close>

definition zero_storage :: toeplitz_hash where
  "zero_storage = \<lparr>toeplitz_key = 0, table = replicate HASH_TABLE_SIZE 0\<rparr>"

section \<open>Operations\<close>

text \<open>The constructor assigns the ten key words and leaves the table as it finds it.\<close>

definition ToeplitzHash :: "toeplitz_hash \<Rightarrow> toeplitz_hash" where
  "ToeplitzHash h = h\<lparr>toeplitz_key :=
     fold (\<lambda>(hi, lo, v :: u32) k. ap_set_range hi lo k v)
       [(31, 0, 0xD6E31417), (63, 32, 0x376CC87E), (95, 64, 0x011BA7A6),
        (127, 96, 0xDC1B91BB), (159, 128, 0x7872E224), (191, 160, 0xBFD0404B),
        (223, 192, 0x260374B8), (255, 224, 0xD9270F6F), (287, 256, 0x18DC4386),
        (319, 288, 0x7C9C37DE)]
       (toeplitz_key h)\<rparr>"

definition get_window :: "toeplitz_hash \<Rightarrow> bool \<Rightarrow> nat \<Rightarrow> u32" where
  "get_window h b offset = (if b then ap_range (offset + 31) offset (toeplitz_key h) else 0)"

definition compute_hash :: "toeplitz_hash \<Rightarrow> u32 \<Rightarrow> u16 \<Rightarrow> u32" where
  "compute_hash h ip port =
     (let hash = fold (\<lambda>i acc. acc XOR get_window h (bit ip i) i) [0..<32] 0
      in fold (\<lambda>i acc. acc XOR get_window h (bit port i) (i + 32)) [0..<16] hash)"

text \<open>The slot number both table operations compute: \<open>int index = hash & HASH_MASK\<close>.\<close>

definition hash_index :: "toeplitz_hash \<Rightarrow> u32 \<Rightarrow> u16 \<Rightarrow> nat" where
  "hash_index h ip port = unat (compute_hash h ip port AND HASH_MASK)"

definition ht_lookup :: "toeplitz_hash \<Rightarrow> u32 \<Rightarrow> u16 \<Rightarrow> u32" where
  "ht_lookup h ip port = table h ! hash_index h ip port"

definition ht_insert :: "toeplitz_hash \<Rightarrow> u32 \<Rightarrow> u16 \<Rightarrow> u32 \<Rightarrow> toeplitz_hash" where
  "ht_insert h ip port value = h\<lparr>table := (table h)[hash_index h ip port := value]\<rparr>"

text \<open>The static object \<open>hash_table\<close> as the filter core first sees it.\<close>

definition hash_init :: toeplitz_hash where
  "hash_init = ToeplitzHash zero_storage"

section \<open>The constants\<close>

definition TOEPLITZ_KEY :: "320 word" where
  "TOEPLITZ_KEY =
     0x7C9C37DE18DC4386D9270F6F260374B8BFD0404B7872E224DC1B91BB011BA7A6376CC87ED6E31417"

lemma clz32_table_size: "clz32 (of_nat HASH_TABLE_SIZE) = 26"
  by (simp add: clz32_def HASH_TABLE_SIZE_def upt_rec)

lemma HASH_BITS_eq: "HASH_BITS = 5"
  by (simp add: HASH_BITS_def clz32_table_size)

lemma HASH_MASK_eq: "HASH_MASK = 31"
  by (simp add: HASH_MASK_def HASH_BITS_eq)

lemma toeplitz_key_ctor [simp]: "toeplitz_key (ToeplitzHash h) = TOEPLITZ_KEY"
proof -
  have "toeplitz_key (ToeplitzHash h) = toeplitz_key (ToeplitzHash zero_storage)"
    by (rule bit_eqI) (simp add: ToeplitzHash_def bit_ap_set_range)
  also have "\<dots> = TOEPLITZ_KEY"
    by (simp add: ToeplitzHash_def zero_storage_def TOEPLITZ_KEY_def ap_set_range_def mask_numeral)
  finally show ?thesis .
qed

lemma table_ctor [simp]: "table (ToeplitzHash h) = table h"
  by (simp add: ToeplitzHash_def)


section \<open>Linearity of the hash\<close>

lemma get_window_xor:
  "get_window h (b \<noteq> c) i = get_window h b i XOR get_window h c i"
  by (simp add: get_window_def)

lemma fold_xor_start:
  "fold (\<lambda>i acc. acc XOR f i) xs (a :: 'a::len word) = a XOR fold (\<lambda>i acc. acc XOR f i) xs 0"
proof (induction xs arbitrary: a)
  case Nil
  then show ?case by simp
next
  case (Cons x xs)
  show ?case
    using Cons.IH [of "a XOR f x"] Cons.IH [of "f x"] by (simp add: ac_simps)
qed

lemma fold_xor_xor:
  "fold (\<lambda>i acc. acc XOR (f i XOR g i)) xs (0 :: 'a::len word) =
     fold (\<lambda>i acc. acc XOR f i) xs 0 XOR fold (\<lambda>i acc. acc XOR g i) xs 0"
proof (induction xs)
  case Nil
  then show ?case by simp
next
  case (Cons x xs)
  then show ?case
    using fold_xor_start [of "\<lambda>i. f i XOR g i" xs "f x XOR g x"]
      fold_xor_start [of f xs "f x"] fold_xor_start [of g xs "g x"]
    by (simp add: ac_simps)
qed

text \<open>The two unrolled loops, each started from zero.\<close>

lemma compute_hash_split:
  "compute_hash h ip port =
     fold (\<lambda>i acc. acc XOR get_window h (bit ip i) i) [0..<32] 0 XOR
     fold (\<lambda>i acc. acc XOR get_window h (bit port i) (i + 32)) [0..<16] 0"
  unfolding compute_hash_def Let_def by (subst fold_xor_start) (rule refl)

lemma compute_hash_xor:
  "compute_hash h (ip XOR ip') (port XOR port') =
     compute_hash h ip port XOR compute_hash h ip' port'"
  unfolding compute_hash_split bit_xor_iff get_window_xor fold_xor_xor by (simp only: ac_simps)

lemma compute_hash_key:
  assumes "toeplitz_key h = toeplitz_key h'"
  shows "compute_hash h = compute_hash h'"
proof -
  from assms have "get_window h = get_window h'" by (simp add: fun_eq_iff get_window_def)
  then show ?thesis by (simp add: fun_eq_iff compute_hash_def)
qed

lemma hash_index_key:
  "toeplitz_key h = toeplitz_key h' \<Longrightarrow> hash_index h = hash_index h'"
  using compute_hash_key [of h h'] by (simp add: fun_eq_iff hash_index_def)

lemma hash_index_xor:
  "hash_index h (ip XOR ip') (port XOR port') =
     (hash_index h ip port XOR hash_index h ip' port')"
proof -
  have "(a XOR b) AND m = (a AND m) XOR (b AND m)" for a b m :: u32
    by (rule bit_eqI) (auto simp: bit_simps)
  then show ?thesis
    by (simp add: hash_index_def compute_hash_xor unsigned_xor_eq)
qed

lemma hash_index_less: "hash_index h ip port < HASH_TABLE_SIZE"
proof -
  have "compute_hash h ip port AND 31 = take_bit 5 (compute_hash h ip port)"
    by (simp add: take_bit_eq_mask mask_numeral)
  then show ?thesis
    by (simp add: hash_index_def HASH_MASK_eq HASH_TABLE_SIZE_def unsigned_take_bit_eq
        take_bit_nat_less_exp [of 5, simplified])
qed

section \<open>The unrolled hash is the sliding-window Toeplitz hash\<close>

text \<open>
  The textbook Toeplitz hash consumes the input bits one at a time and moves the key register
  by one bit after each; a set bit adds the current 32-bit window into the result.
\<close>

fun toeplitz_ref :: "320 word \<Rightarrow> bool list \<Rightarrow> u32" where
  "toeplitz_ref key [] = 0"
| "toeplitz_ref key (b # bs) = (if b then ucast key else 0) XOR toeplitz_ref (drop_bit 1 key) bs"

lemma toeplitz_ref_append:
  "toeplitz_ref key (xs @ ys) = toeplitz_ref key xs XOR toeplitz_ref (drop_bit (length xs) key) ys"
  by (induction xs arbitrary: key) (simp_all add: ac_simps)

lemma get_window_drop: "get_window h b i = (if b then ucast (drop_bit i (toeplitz_key h)) else 0)"
  by (simp add: get_window_def) (auto intro!: bit_eqI simp: bit_rules bit_simps)

lemma toeplitz_ref_window:
  "toeplitz_ref (drop_bit k (toeplitz_key h)) (map f [0..<n]) =
     fold (\<lambda>i acc. acc XOR get_window h (f i) (i + k)) [0..<n] 0"
proof (induction n)
  case 0
  then show ?case by simp
next
  case (Suc n)
  then show ?case
    by (simp add: toeplitz_ref_append get_window_drop)
qed

section \<open>Every slot is used, and evenly\<close>

abbreviation slot_of :: "u32 \<times> u16 \<Rightarrow> nat" where
  "slot_of a \<equiv> hash_index hash_init (fst a) (snd a)"

abbreviation addr_xor :: "u32 \<times> u16 \<Rightarrow> u32 \<times> u16 \<Rightarrow> u32 \<times> u16" where
  "addr_xor a b \<equiv> (fst a XOR fst b, snd a XOR snd b)"

lemma slot_of_xor: "slot_of (addr_xor a b) = (slot_of a XOR slot_of b)"
  by (simp add: hash_index_xor)

text \<open>
  One representative address per slot, obtained from single-bit addresses whose windows are a
  basis of the five index bits.
\<close>

definition slot_rep :: "nat \<Rightarrow> u32 \<times> u16" where
  "slot_rep s =
     ((if bit s 0 then 16 else 0) XOR (if bit s 1 then 8 else 0) XOR
      (if bit s 2 then 20 else 0) XOR (if bit s 3 then 128 else 0) XOR
      (if bit s 4 then 64 else 0), 0)"

text \<open>Evaluating the hash of a concrete address.\<close>

lemmas hash_eval = compute_hash_def get_window_drop hash_init_def TOEPLITZ_KEY_def upt_conv_Cons

lemma hash_index_ip_xor:
  "hash_index h (ip XOR ip') 0 = (hash_index h ip 0 XOR hash_index h ip' 0)"
  using hash_index_xor [of h ip ip' 0 0] by simp

lemma basis_slots:
  "hash_index hash_init 0 0 = 0" "hash_index hash_init 16 0 = 1" "hash_index hash_init 8 0 = 2"
  "hash_index hash_init 20 0 = 4" "hash_index hash_init 128 0 = 8" "hash_index hash_init 64 0 = 16"
  by (simp_all add: hash_index_def HASH_MASK_eq hash_eval)

lemma slot_of_rep:
  assumes "s < HASH_TABLE_SIZE"
  shows "slot_of (slot_rep s) = s"
proof -
  have "slot_of (slot_rep s) =
      ((if bit s 0 then 1 else 0) XOR (if bit s 1 then 2 else 0) XOR (if bit s 2 then 4 else 0) XOR
       (if bit s 3 then 8 else 0) XOR (if bit s 4 then 16 else 0))"
    by (simp only: slot_rep_def fst_conv snd_conv hash_index_ip_xor
        if_distrib [of "\<lambda>x. hash_index hash_init x 0"] basis_slots)
  moreover have "s \<in> {..<32}" using assms by (simp add: HASH_TABLE_SIZE_def)
  ultimately show ?thesis
    by (simp only: lessThan_nat_numeral pred_numeral_simps arith_simps lessThan_0 insert_iff empty_iff)
      (elim disjE FalseE; simp add: bit_iff_odd)
qed
abbreviation slot_class :: "nat \<Rightarrow> (u32 \<times> u16) set" where
  "slot_class s \<equiv> {a. slot_of a = s}"

lemma addr_xor_cancel [simp]: "addr_xor (addr_xor a b) b = a"
  by (simp add: xor.assoc)

lemma card_slot_class_eq:
  assumes "s < HASH_TABLE_SIZE"
  shows "card (slot_class s) = card (slot_class 0)"
proof -
  have "bij_betw (\<lambda>a. addr_xor a (slot_rep s)) (slot_class 0) (slot_class s)"
  proof (rule bij_betw_byWitness [where f' = "\<lambda>a. addr_xor a (slot_rep s)"])
    show "(\<lambda>a. addr_xor a (slot_rep s)) ` slot_class 0 \<subseteq> slot_class s"
      using slot_of_rep [OF assms] by (auto simp: hash_index_xor)
    show "(\<lambda>a. addr_xor a (slot_rep s)) ` slot_class s \<subseteq> slot_class 0"
      using slot_of_rep [OF assms] by (auto simp: hash_index_xor)
  qed (simp_all add: xor.assoc)
  then show ?thesis by (rule bij_betw_same_card [symmetric])
qed

lemma card_addresses: "card (UNIV :: (u32 \<times> u16) set) = 2 ^ 48"
proof -
  have "card (UNIV :: (u32 \<times> u16) set) = card (UNIV :: u32 set) * card (UNIV :: u16 set)"
    by (simp add: card_cartesian_product flip: UNIV_Times_UNIV)
  then show ?thesis by (simp add: card_word)
qed

lemma card_addresses_split: "2 ^ 48 = HASH_TABLE_SIZE * card (slot_class 0)"
proof -
  have u: "(UNIV :: (u32 \<times> u16) set) = (\<Union>s \<in> {..<HASH_TABLE_SIZE}. slot_class s)"
    using hash_index_less by auto
  have "card (UNIV :: (u32 \<times> u16) set) = card (\<Union>s \<in> {..<HASH_TABLE_SIZE}. slot_class s)"
    by (rule arg_cong [OF u])
  also have "\<dots> = (\<Sum>s<HASH_TABLE_SIZE. card (slot_class s))"
    by (rule card_UN_disjoint) auto
  also have "\<dots> = (\<Sum>s<HASH_TABLE_SIZE. card (slot_class 0))"
    by (intro sum.cong refl card_slot_class_eq) simp
  finally show ?thesis unfolding card_addresses by simp
qed

section \<open>The slot-table contract\<close>

text \<open>
  What the filter core relies on: a slot table addressed through \<open>slot\<close>, where an insertion
  overwrites one slot and every key of that slot sees the new value. Nothing in the contract
  separates two keys of one slot.
\<close>

locale slot_table =
  fixes ins :: "'t \<Rightarrow> 'k \<Rightarrow> 'v \<Rightarrow> 't"
    and look :: "'t \<Rightarrow> 'k \<Rightarrow> 'v"
    and slot :: "'k \<Rightarrow> 'i"
    and inv :: "'t \<Rightarrow> bool"
  assumes look_ins: "inv t \<Longrightarrow> look (ins t k v) k' = (if slot k = slot k' then v else look t k')"
    and inv_ins: "inv t \<Longrightarrow> inv (ins t k v)"
begin

lemma inv_fold: "inv t \<Longrightarrow> inv (fold (\<lambda>(k, v) t. ins t k v) rs t)"
  by (induction rs arbitrary: t) (auto simp: inv_ins)

text \<open>After a history of insertions a key reads the youngest entry of its slot.\<close>

lemma look_fold:
  "inv t \<Longrightarrow> look (fold (\<lambda>(k, v) t. ins t k v) rs t) k =
     (case find (\<lambda>(k', v). slot k' = slot k) (rev rs) of None \<Rightarrow> look t k | Some (k', v) \<Rightarrow> v)"
proof (induction rs rule: rev_induct)
  case Nil
  then show ?case by simp
next
  case (snoc r rs)
  obtain k' v where r: "r = (k', v)" by (cases r)
  show ?case
    using snoc inv_fold [OF snoc.prems, of rs] by (simp add: r look_ins)
qed

lemma look_fold_other:
  assumes "inv t" and "\<And>k' v. (k', v) \<in> set rs \<Longrightarrow> slot k' \<noteq> slot k"
  shows "look (fold (\<lambda>(k, v) t. ins t k v) rs t) k = look t k"
  using assms
proof (induction rs arbitrary: t)
  case Nil
  then show ?case by simp
next
  case (Cons r rs)
  obtain k' v where r: "r = (k', v)" by (cases r)
  have "look (fold (\<lambda>(k, v) t. ins t k v) rs (ins t k' v)) k = look (ins t k' v) k"
    by (rule Cons.IH) (use Cons.prems in \<open>auto simp: inv_ins\<close>)
  also have "\<dots> = look t k"
    using Cons.prems(1) Cons.prems(2) [of k' v] by (simp add: look_ins r)
  finally show ?case by (simp add: r)
qed

end

text \<open>The invariant of the static table: the constructed key, and all 32 slots present.\<close>

definition ht_wf :: "toeplitz_hash \<Rightarrow> bool" where
  "ht_wf h \<longleftrightarrow> toeplitz_key h = TOEPLITZ_KEY \<and> length (table h) = HASH_TABLE_SIZE"

lemma ht_wf_init [simp]: "ht_wf hash_init"
  by (simp add: ht_wf_def hash_init_def zero_storage_def)

lemma ht_wf_insert [simp]: "ht_wf h \<Longrightarrow> ht_wf (ht_insert h ip port v)"
  by (simp add: ht_wf_def ht_insert_def)

lemma hash_index_wf: "ht_wf h \<Longrightarrow> hash_index h = hash_index hash_init"
  by (rule hash_index_key) (simp add: ht_wf_def hash_init_def)

lemma hash_index_insert [simp]: "hash_index (ht_insert h ip port v) = hash_index h"
  by (rule hash_index_key) (simp add: ht_insert_def)

lemma lookup_insert_index:
  "length (table h) = HASH_TABLE_SIZE \<Longrightarrow> ht_lookup (ht_insert h ip port v) ip' port' =
     (if hash_index h ip port = hash_index h ip' port' then v else ht_lookup h ip' port')"
  using hash_index_less [of h ip port]
  by (auto simp: ht_lookup_def ht_insert_def hash_index_key
      [of "h\<lparr>table := (table h)[hash_index h ip port := v]\<rparr>" h])

interpretation ht: slot_table
  "\<lambda>h a v. ht_insert h (fst a) (snd a) v" "\<lambda>h a. ht_lookup h (fst a) (snd a)" slot_of ht_wf
proof unfold_locales
  fix t k v k'
  assume "ht_wf t"
  then show "ht_lookup (ht_insert t (fst k) (snd k) v) (fst k') (snd k') =
      (if slot_of k = slot_of k' then v else ht_lookup t (fst k') (snd k'))"
    using lookup_insert_index [of t] hash_index_wf [of t] by (simp add: ht_wf_def)
qed simp

section \<open>Properties\<close>

text \<open>C4: The two unrolled loops of \<open>compute_hash\<close> compute the sliding-window Toeplitz hash of
  the 48 address bits: the 32 bits of the address, least significant first, then the 16 bits of
  the port.\<close>

theorem compute_hash_toeplitz:
  "compute_hash h ip port =
     toeplitz_ref (toeplitz_key h) (map (bit ip) [0..<32] @ map (bit port) [0..<16])"
proof -
  have "toeplitz_ref (toeplitz_key h) (map (bit ip) [0..<32]) =
      fold (\<lambda>i acc. acc XOR get_window h (bit ip i) i) [0..<32] 0"
    using toeplitz_ref_window [of 0 h "bit ip" 32] by simp
  then show ?thesis
    by (simp only: toeplitz_ref_append toeplitz_ref_window compute_hash_split length_map length_upt
        diff_zero)
qed

text \<open>C5: After any history of insertions, \<open>lookup\<close> returns the value of the youngest insertion
  whose address hashes to the same slot, and the value the table held before when there is
  none: the slot alone decides, whatever the address was.\<close>

theorem lookup_after_inserts:
  assumes "ht_wf h"
  shows "ht_lookup (fold (\<lambda>((ip, port), v) t. ht_insert t ip port v) rs h) ip' port' =
     (case find (\<lambda>((ip, port), v). hash_index h ip port = hash_index h ip' port') (rev rs) of
        None \<Rightarrow> ht_lookup h ip' port' | Some (a, v) \<Rightarrow> v)"
  using ht.look_fold [OF assms, of rs "(ip', port')"]
  by (simp add: hash_index_wf [OF assms] case_prod_beta' cong: option.case_cong)

theorem lookup_after_inserts_witness:
  "ht_lookup (fold (\<lambda>((ip, port), v) t. ht_insert t ip port v)
     [((16, 0), 1), ((8, 0), 0)] hash_init) 16 0 = 1"
  using lookup_after_inserts [OF ht_wf_init, of "[((16, 0), 1), ((8, 0), 0)]" 16 0]
  by (simp add: basis_slots)

text \<open>C20: Each of the 32 slots is shared by exactly \<open>2 ^ 43\<close> of the \<open>2 ^ 48\<close> destinations, so a
  rule acts on all of them.\<close>

theorem slot_class_card:
  assumes "s < HASH_TABLE_SIZE"
  shows "card {(ip, port). hash_index (ToeplitzHash h) ip port = s} = 2 ^ 43"
proof -
  have "hash_index (ToeplitzHash h) = hash_index hash_init"
    by (rule hash_index_key) (simp add: hash_init_def)
  then have "{(ip, port). hash_index (ToeplitzHash h) ip port = s} = slot_class s"
    by (auto simp: case_prod_beta')
  then show ?thesis
    using card_slot_class_eq [OF assms] card_addresses_split by (simp add: HASH_TABLE_SIZE_def)
qed

theorem slot_class_card_witness:
  "card {(ip, port). hash_index (ToeplitzHash zero_storage) ip port = 0} = 2 ^ 43"
  by (rule slot_class_card) (simp add: HASH_TABLE_SIZE_def)

end
