(* ===== verification/Network_Headers.thy ===== *)
theory Network_Headers
  imports Ap_Uint
begin

text \<open>
  The packet headers of the filter core (\<open>network.h\<close>, \<open>network.cc\<close>): the four structures, their
  \<open>serialize\<close> and \<open>deserialize\<close> members with the phit guard, \<open>size\<close>, \<open>is_ipv4\<close> and \<open>is_udp\<close>.
  The locale \<open>header_codec\<close> is the contract of one header over the 512-bit data bus: it reads
  and writes its own bit range only and is lossless there. \<open>codec_pair\<close> composes two codecs on
  disjoint ranges, as \<open>NetworkPacket\<close> composes the three headers.
\<close>

unbundle bit_operations_syntax

section \<open>Structures\<close>

record EthernetHeader =
  dest_mac :: "48 word"
  src_mac :: "48 word"
  eth_type :: u16

definition IPV4 :: u16 where "IPV4 = 0x0800"
definition ARP :: u16 where "ARP = 0x0806"

record IPv4Header =
  version :: "4 word"
  ihl :: "4 word"
  dscp_ecn :: u8
  total_length :: u16
  identification :: u16
  flags :: "3 word"
  fragment_offset :: "13 word"
  ttl :: u8
  protocol :: u8
  header_checksum :: u16
  src_ip :: u32
  dest_ip :: u32

definition TCP :: u8 where "TCP = 6"
definition UDP :: u8 where "UDP = 17"

record UDPHeader =
  src_port :: u16
  dest_port :: u16
  udp_length :: u16
  checksum :: u16

record NetworkPacket =
  eth_hdr :: EthernetHeader
  ip_hdr :: IPv4Header
  udp_hdr :: UDPHeader

type_synonym bus = "512 word"

definition eth_size :: nat where "eth_size = 14"
definition ipv4_size :: nat where "ipv4_size = 20"
definition udp_size :: nat where "udp_size = 8"
definition network_size :: nat where "network_size = eth_size + ipv4_size + udp_size"

definition is_ipv4 :: "EthernetHeader \<Rightarrow> bool" where
  "is_ipv4 h \<longleftrightarrow> eth_type h = bswap16 IPV4"

definition is_udp :: "IPv4Header \<Rightarrow> bool" where
  "is_udp h \<longleftrightarrow> protocol h = UDP"

section \<open>Serialisation\<close>

text \<open>
  The structures are members that a call updates in place: \<open>deserialize\<close> takes the old value
  and leaves it unchanged on every phit but the first, \<open>serialize\<close> does the same to the bus.
\<close>

definition eth_serialize :: "EthernetHeader \<Rightarrow> bus \<Rightarrow> u32 \<Rightarrow> bus" where
  "eth_serialize h data phit_idx =
     (if phit_idx = 0 then
        (let data = ap_set_range 47 0 data (dest_mac h);
             data = ap_set_range 95 48 data (src_mac h);
             data = ap_set_range 111 96 data (eth_type h)
         in data)
      else data)"

definition eth_deserialize :: "bus \<Rightarrow> u32 \<Rightarrow> EthernetHeader \<Rightarrow> EthernetHeader" where
  "eth_deserialize data phit_idx h =
     (if phit_idx = 0 then
        h\<lparr>dest_mac := ap_range 47 0 data, src_mac := ap_range 95 48 data,
          eth_type := ap_range 111 96 data\<rparr>
      else h)"

definition ipv4_serialize :: "IPv4Header \<Rightarrow> bus \<Rightarrow> u32 \<Rightarrow> bus" where
  "ipv4_serialize h data phit_idx =
     (if phit_idx = 0 then
        (let data = ap_set_range 115 112 data (version h);
             data = ap_set_range 119 116 data (ihl h);
             data = ap_set_range 127 120 data (dscp_ecn h);
             data = ap_set_range 143 128 data (total_length h);
             data = ap_set_range 159 144 data (identification h);
             data = ap_set_range 162 160 data (flags h);
             data = ap_set_range 175 163 data (fragment_offset h);
             data = ap_set_range 183 176 data (ttl h);
             data = ap_set_range 191 184 data (protocol h);
             data = ap_set_range 207 192 data (header_checksum h);
             data = ap_set_range 239 208 data (src_ip h);
             data = ap_set_range 271 240 data (dest_ip h)
         in data)
      else data)"

definition ipv4_deserialize :: "bus \<Rightarrow> u32 \<Rightarrow> IPv4Header \<Rightarrow> IPv4Header" where
  "ipv4_deserialize data phit_idx h =
     (if phit_idx = 0 then
        h\<lparr>version := ap_range 115 112 data, ihl := ap_range 119 116 data,
          dscp_ecn := ap_range 127 120 data, total_length := ap_range 143 128 data,
          identification := ap_range 159 144 data, flags := ap_range 162 160 data,
          fragment_offset := ap_range 175 163 data, ttl := ap_range 183 176 data,
          protocol := ap_range 191 184 data, header_checksum := ap_range 207 192 data,
          src_ip := ap_range 239 208 data, dest_ip := ap_range 271 240 data\<rparr>
      else h)"

definition udp_serialize :: "UDPHeader \<Rightarrow> bus \<Rightarrow> u32 \<Rightarrow> bus" where
  "udp_serialize h data phit_idx =
     (if phit_idx = 0 then
        (let data = ap_set_range 287 272 data (src_port h);
             data = ap_set_range 303 288 data (dest_port h);
             data = ap_set_range 319 304 data (udp_length h);
             data = ap_set_range 335 320 data (checksum h)
         in data)
      else data)"

definition udp_deserialize :: "bus \<Rightarrow> u32 \<Rightarrow> UDPHeader \<Rightarrow> UDPHeader" where
  "udp_deserialize data phit_idx h =
     (if phit_idx = 0 then
        h\<lparr>src_port := ap_range 287 272 data, dest_port := ap_range 303 288 data,
          udp_length := ap_range 319 304 data, checksum := ap_range 335 320 data\<rparr>
      else h)"

definition network_serialize :: "NetworkPacket \<Rightarrow> bus \<Rightarrow> u32 \<Rightarrow> bus" where
  "network_serialize p data phit_idx =
     (let data = eth_serialize (eth_hdr p) data phit_idx;
          data = ipv4_serialize (ip_hdr p) data phit_idx;
          data = udp_serialize (udp_hdr p) data phit_idx
      in data)"

definition network_deserialize :: "bus \<Rightarrow> u32 \<Rightarrow> NetworkPacket \<Rightarrow> NetworkPacket" where
  "network_deserialize data phit_idx p =
     (let p = p\<lparr>eth_hdr := eth_deserialize data phit_idx (eth_hdr p)\<rparr>;
          p = p\<lparr>ip_hdr := ipv4_deserialize data phit_idx (ip_hdr p)\<rparr>;
          p = p\<lparr>udp_hdr := udp_deserialize data phit_idx (udp_hdr p)\<rparr>
      in p)"

section \<open>The codec contract\<close>

locale header_codec =
  fixes ser :: "'h \<Rightarrow> bus \<Rightarrow> bus"
    and des :: "bus \<Rightarrow> 'h \<Rightarrow> 'h"
    and lo hi :: nat
  assumes des_ser: "des (ser h d) h0 = h"
    and ser_des: "ser (des d h0) d = d"
    and ser_frame: "n < lo \<or> hi \<le> n \<Longrightarrow> bit (ser h d) n = bit d n"
    and ser_local: "lo \<le> n \<Longrightarrow> n < hi \<Longrightarrow> bit (ser h d) n = bit (ser h d') n"
    and des_local: "(\<And>n. lo \<le> n \<Longrightarrow> n < hi \<Longrightarrow> bit d n = bit d' n) \<Longrightarrow> des d h0 = des d' h1"
begin

lemma des_old: "des d h0 = des d h1"
  by (rule des_local) (rule refl)

lemma ser_inject: "ser h d = ser h' d \<Longrightarrow> h = h'"
  by (metis des_ser)

lemma ser_ser: "ser h (ser h' d) = ser h d"
proof (rule bit_eqI)
  fix n
  show "bit (ser h (ser h' d)) n = bit (ser h d) n"
    using ser_frame [of n h "ser h' d"] ser_frame [of n h' d] ser_frame [of n h d]
      ser_local [of n h "ser h' d" d] by (meson not_le)
qed

end

locale codec_pair =
  A: header_codec serA desA lo mid + B: header_codec serB desB mid hi
  for serA :: "'a \<Rightarrow> bus \<Rightarrow> bus" and desA and serB :: "'b \<Rightarrow> bus \<Rightarrow> bus" and desB and lo mid hi +
  assumes ranges: "lo \<le> mid" "mid \<le> hi"
begin

text \<open>Writing the later range does not disturb what the earlier codec reads, and conversely.\<close>

lemma desA_serB: "desA (serB b d) a0 = desA d a0"
  by (rule A.des_local) (simp add: B.ser_frame)

lemma serA_then_B_desB: "desB (serA a d) b0 = desB d b0"
  by (rule B.des_local) (simp add: A.ser_frame)

lemma pair_codec:
  "header_codec (\<lambda>p d. serB (snd p) (serA (fst p) d)) (\<lambda>d p. (desA d (fst p), desB d (snd p))) lo hi"
proof unfold_locales
  fix p p0 p1 :: "'a \<times> 'b" and d d' :: bus and n
  show "(desA (serB (snd p) (serA (fst p) d)) (fst p0), desB (serB (snd p) (serA (fst p) d)) (snd p0)) = p"
    by (simp add: desA_serB A.des_ser B.des_ser)
  show "serB (snd (desA d (fst p0), desB d (snd p0))) (serA (fst (desA d (fst p0), desB d (snd p0))) d) = d"
    by (simp add: A.ser_des B.ser_des)
  show "n < lo \<or> hi \<le> n \<Longrightarrow> bit (serB (snd p) (serA (fst p) d)) n = bit d n"
    using ranges by (auto simp: A.ser_frame B.ser_frame)
  show "bit (serB (snd p) (serA (fst p) d)) n = bit (serB (snd p) (serA (fst p) d')) n"
    if "lo \<le> n" "n < hi"
    using that B.ser_frame [of n "snd p"] A.ser_local [of n "fst p" d d']
      B.ser_local [of n "snd p"] by (meson not_le)
  show "(desA d (fst p0), desB d (snd p0)) = (desA d' (fst p1), desB d' (snd p1))"
    if "\<And>n. lo \<le> n \<Longrightarrow> n < hi \<Longrightarrow> bit d n = bit d' n"
    using that ranges by (auto intro!: A.des_local B.des_local)
qed

end

sublocale codec_pair \<subseteq> P: header_codec
  "\<lambda>p d. serB (snd p) (serA (fst p) d)" "\<lambda>d p. (desA d (fst p), desB d (snd p))" lo hi
  by (rule pair_codec)

section \<open>The three headers are codecs\<close>

lemmas header_defs =
  eth_serialize_def eth_deserialize_def ipv4_serialize_def ipv4_deserialize_def
  udp_serialize_def udp_deserialize_def

interpretation eth: header_codec "\<lambda>h d. eth_serialize h d 0" "\<lambda>d h. eth_deserialize d 0 h" 0 112
proof unfold_locales
  fix h h0 h1 :: EthernetHeader and d d' :: bus and n :: nat
  show "eth_deserialize (eth_serialize h d 0) 0 h0 = h"
    by (simp add: header_defs)
  show "eth_serialize (eth_deserialize d 0 h0) d 0 = d"
    by (simp add: header_defs)
  show "n < 0 \<or> 112 \<le> n \<Longrightarrow> bit (eth_serialize h d 0) n = bit d n"
    by (auto simp: header_defs)
  show "0 \<le> n \<Longrightarrow> n < 112 \<Longrightarrow> bit (eth_serialize h d 0) n = bit (eth_serialize h d' 0) n"
    by (simp add: header_defs) (intro bit_ap_set_range_cong; simp)
  show "eth_deserialize d 0 h0 = eth_deserialize d' 0 h1"
    if "\<And>n. 0 \<le> n \<Longrightarrow> n < 112 \<Longrightarrow> bit d n = bit d' n"
    using that by (intro EthernetHeader.equality) (auto simp: header_defs intro!: ap_range_cong)
qed

interpretation ipv4: header_codec "\<lambda>h d. ipv4_serialize h d 0" "\<lambda>d h. ipv4_deserialize d 0 h" 112 272
proof unfold_locales
  fix h h0 h1 :: IPv4Header and d d' :: bus and n :: nat
  show "ipv4_deserialize (ipv4_serialize h d 0) 0 h0 = h"
    by (simp add: header_defs)
  show "ipv4_serialize (ipv4_deserialize d 0 h0) d 0 = d"
    by (simp add: header_defs)
  show "n < 112 \<or> 272 \<le> n \<Longrightarrow> bit (ipv4_serialize h d 0) n = bit d n"
    by (auto simp: header_defs)
  show "112 \<le> n \<Longrightarrow> n < 272 \<Longrightarrow> bit (ipv4_serialize h d 0) n = bit (ipv4_serialize h d' 0) n"
    by (simp add: header_defs) (intro bit_ap_set_range_cong; simp)
  show "ipv4_deserialize d 0 h0 = ipv4_deserialize d' 0 h1"
    if "\<And>n. 112 \<le> n \<Longrightarrow> n < 272 \<Longrightarrow> bit d n = bit d' n"
    using that by (intro IPv4Header.equality) (auto simp: header_defs intro!: ap_range_cong)
qed

interpretation udp: header_codec "\<lambda>h d. udp_serialize h d 0" "\<lambda>d h. udp_deserialize d 0 h" 272 336
proof unfold_locales
  fix h h0 h1 :: UDPHeader and d d' :: bus and n :: nat
  show "udp_deserialize (udp_serialize h d 0) 0 h0 = h"
    by (simp add: header_defs)
  show "udp_serialize (udp_deserialize d 0 h0) d 0 = d"
    by (simp add: header_defs)
  show "n < 272 \<or> 336 \<le> n \<Longrightarrow> bit (udp_serialize h d 0) n = bit d n"
    by (auto simp: header_defs)
  show "272 \<le> n \<Longrightarrow> n < 336 \<Longrightarrow> bit (udp_serialize h d 0) n = bit (udp_serialize h d' 0) n"
    by (simp add: header_defs) (intro bit_ap_set_range_cong; simp)
  show "udp_deserialize d 0 h0 = udp_deserialize d' 0 h1"
    if "\<And>n. 272 \<le> n \<Longrightarrow> n < 336 \<Longrightarrow> bit d n = bit d' n"
    using that by (intro UDPHeader.equality) (auto simp: header_defs intro!: ap_range_cong)
qed

section \<open>The packet header is a codec\<close>

interpretation eth_ip: codec_pair
  "\<lambda>h d. eth_serialize h d 0" "\<lambda>d h. eth_deserialize d 0 h"
  "\<lambda>h d. ipv4_serialize h d 0" "\<lambda>d h. ipv4_deserialize d 0 h" 0 112 272
  by unfold_locales simp_all

interpretation np: codec_pair
  "\<lambda>p d. ipv4_serialize (snd p) (eth_serialize (fst p) d 0) 0"
  "\<lambda>d p. (eth_deserialize d 0 (fst p), ipv4_deserialize d 0 (snd p))"
  "\<lambda>h d. udp_serialize h d 0" "\<lambda>d h. udp_deserialize d 0 h" 0 272 336
  by unfold_locales simp_all

text \<open>The members of \<open>NetworkPacket\<close>, as the nested pair the two compositions work on.\<close>

definition headers :: "NetworkPacket \<Rightarrow> (EthernetHeader \<times> IPv4Header) \<times> UDPHeader" where
  "headers p = ((eth_hdr p, ip_hdr p), udp_hdr p)"

lemma headers_eq_iff: "headers p = headers q \<longleftrightarrow> p = q"
  by (auto simp: headers_def)

lemma network_serialize_pair:
  "network_serialize p d 0 =
     udp_serialize (snd (headers p))
       (ipv4_serialize (snd (fst (headers p))) (eth_serialize (fst (fst (headers p))) d 0) 0) 0"
  by (simp add: network_serialize_def headers_def)

lemma headers_deserialize:
  "headers (network_deserialize d 0 p) =
     ((eth_deserialize d 0 (fst (fst (headers p))), ipv4_deserialize d 0 (snd (fst (headers p)))),
      udp_deserialize d 0 (snd (headers p)))"
  by (simp add: network_deserialize_def headers_def)

lemma network_deserialize_old:
  "network_deserialize d 0 p = network_deserialize d 0 q"
  using np.P.des_old [of d "headers p" "headers q"]
  by (simp add: headers_deserialize flip: headers_eq_iff)

lemma network_deserialize_later [simp]:
  "phit_idx \<noteq> 0 \<Longrightarrow> network_deserialize d phit_idx p = p"
  by (simp add: network_deserialize_def header_defs)

section \<open>Fields in the bytes of the wire\<close>

lemma wire_fields:
  assumes "length bs = 64"
  shows "is_ipv4 (eth_hdr (network_deserialize (le_word bs) 0 old)) \<longleftrightarrow> bs ! 12 = 0x08 \<and> bs ! 13 = 0x00"
    and "is_udp (ip_hdr (network_deserialize (le_word bs) 0 old)) \<longleftrightarrow> bs ! 23 = 17"
    and "dest_ip (ip_hdr (network_deserialize (le_word bs) 0 old)) = le_word [bs ! 30, bs ! 31, bs ! 32, bs ! 33]"
    and "dest_port (udp_hdr (network_deserialize (le_word bs) 0 old)) = le_word [bs ! 36, bs ! 37]"
proof -
  have td: "take m (drop k bs) = map (\<lambda>i. bs ! (k + i)) [0..<m]" if "k + m \<le> 64" for k m
    using that assms by (intro nth_equalityI) auto
  have f: "(ap_range hi lo (le_word bs :: bus) :: 'b::len word) = le_word (take m (drop k bs))"
    if "k + m \<le> 64" "LENGTH('b) = 8 * m" "Suc hi = 8 * (k + m)" "lo = 8 * k" for hi lo k m
    using that assms by (intro ap_range_le_word) auto
  have eth: "(ap_range 111 96 (le_word bs :: bus) :: u16) = le_word [bs ! 12, bs ! 13]"
    and proto: "(ap_range 191 184 (le_word bs :: bus) :: u8) = le_word [bs ! 23]"
    and ip: "(ap_range 271 240 (le_word bs :: bus) :: u32) = le_word [bs ! 30, bs ! 31, bs ! 32, bs ! 33]"
    and port: "(ap_range 303 288 (le_word bs :: bus) :: u16) = le_word [bs ! 36, bs ! 37]"
    by (simp_all add: f [of 12 2] f [of 23 1] f [of 30 4] f [of 36 2] td upt_conv_Cons
        del: le_word.simps)
  have "bswap16 IPV4 = le_word [0x08, 0x00]"
    by (simp add: bswap16_def IPV4_def)
  then have "is_ipv4 (eth_deserialize (le_word bs) 0 (eth_hdr old)) \<longleftrightarrow> bs ! 12 = 0x08 \<and> bs ! 13 = 0x00"
    using le_word_inject [of "[bs ! 12, bs ! 13]" "[0x08, 0x00]", where ?'a = 16]
    by (simp add: is_ipv4_def eth_deserialize_def eth del: le_word.simps)
  moreover have "is_udp (ipv4_deserialize (le_word bs) 0 (ip_hdr old)) \<longleftrightarrow> bs ! 23 = 17"
    by (simp add: is_udp_def ipv4_deserialize_def proto UDP_def)
  moreover have "dest_ip (ipv4_deserialize (le_word bs) 0 (ip_hdr old)) =
      le_word [bs ! 30, bs ! 31, bs ! 32, bs ! 33]"
    "dest_port (udp_deserialize (le_word bs) 0 (udp_hdr old)) = le_word [bs ! 36, bs ! 37]"
    by (simp_all add: ipv4_deserialize_def udp_deserialize_def ip port del: le_word.simps)
  ultimately show "is_ipv4 (eth_hdr (network_deserialize (le_word bs) 0 old)) \<longleftrightarrow> bs ! 12 = 0x08 \<and> bs ! 13 = 0x00"
    "is_udp (ip_hdr (network_deserialize (le_word bs) 0 old)) \<longleftrightarrow> bs ! 23 = 17"
    "dest_ip (ip_hdr (network_deserialize (le_word bs) 0 old)) = le_word [bs ! 30, bs ! 31, bs ! 32, bs ! 33]"
    "dest_port (udp_hdr (network_deserialize (le_word bs) 0 old)) = le_word [bs ! 36, bs ! 37]"
    by (simp_all add: network_deserialize_def Let_def del: le_word.simps)
qed

section \<open>Properties\<close>

text \<open>C6: On the first phit the headers survive a round trip through the bus, whatever was on
  it; writing back what was read changes nothing; and serialising touches only the 42 header
  bytes.\<close>

theorem network_roundtrip:
  "network_deserialize (network_serialize p d 0) 0 old = p \<and>
   network_serialize (network_deserialize d 0 old) d 0 = d \<and>
   bit (network_serialize p d 0) (8 * network_size + n) = bit d (8 * network_size + n)"
proof (intro conjI)
  show "network_deserialize (network_serialize p d 0) 0 old = p"
    using np.P.des_ser [of "headers p" d "headers old"]
    unfolding headers_eq_iff [symmetric] headers_deserialize network_serialize_pair by simp
  show "network_serialize (network_deserialize d 0 old) d 0 = d"
    using np.P.ser_des [of d "headers old"]
    unfolding network_serialize_pair headers_deserialize by simp
  show "bit (network_serialize p d 0) (8 * network_size + n) = bit d (8 * network_size + n)"
    unfolding network_serialize_pair
    by (rule np.P.ser_frame) (simp add: network_size_def eth_size_def ipv4_size_def udp_size_def)
qed

text \<open>Every phit after the first leaves both the bus and the stored headers alone.\<close>

lemma network_later_phits:
  assumes "phit_idx \<noteq> 0"
  shows "network_deserialize d phit_idx p = p \<and> network_serialize p d phit_idx = d"
  using assms by (simp add: network_serialize_def header_defs)

lemma network_later_phits_example:
  "network_deserialize 7 1 p = p \<and> network_serialize p 7 1 = 7"
  by (rule network_later_phits) simp

text \<open>C7: What the filter reads from the 64 bytes of a first phit: an IPv4 frame is recognised
  by the wire bytes \<open>08 00\<close>, UDP by protocol byte 17, and the destination address and port are
  the little-endian words of wire bytes 30 to 33 and 36 to 37.\<close>

theorem deserialize_wire:
  assumes "length bs = 64"
  shows "let p = network_deserialize (le_word bs) 0 old in
     (is_ipv4 (eth_hdr p) \<longleftrightarrow> bs ! 12 = 0x08 \<and> bs ! 13 = 0x00) \<and>
     (is_udp (ip_hdr p) \<longleftrightarrow> bs ! 23 = 17) \<and>
     dest_ip (ip_hdr p) = le_word [bs ! 30, bs ! 31, bs ! 32, bs ! 33] \<and>
     dest_port (udp_hdr p) = le_word [bs ! 36, bs ! 37]"
  by (simp add: wire_fields [OF assms] Let_def del: le_word.simps)

theorem deserialize_wire_witness:
  "let p = network_deserialize
       (le_word (replicate 12 0 @ [8, 0] @ replicate 9 0 @ [17] @ replicate 6 0 @ [192, 168, 2, 1]
          @ [0, 0, 0x21, 0x34] @ replicate 26 0)) 0 undefined in
     is_ipv4 (eth_hdr p) \<and> is_udp (ip_hdr p) \<and> dest_ip (ip_hdr p) = le_word [192, 168, 2, 1]"
  using deserialize_wire [of "replicate 12 0 @ [8, 0] @ replicate 9 0 @ [17] @ replicate 6 0
      @ [192, 168, 2, 1] @ [0, 0, 0x21, 0x34] @ replicate 26 0" undefined]
  by (simp add: nth_append Let_def del: le_word.simps)

text \<open>
  The fields of RFC 791 in the wire bytes: version and header length are the high and the low
  half of byte 14, the flags the top three bits of byte 20, the fragment offset the other five
  bits followed by byte 21.
\<close>

definition rfc_version :: "u8 list \<Rightarrow> 4 word" where
  "rfc_version bs = ucast (drop_bit 4 (bs ! 14))"

definition rfc_ihl :: "u8 list \<Rightarrow> 4 word" where
  "rfc_ihl bs = ucast (bs ! 14)"

definition rfc_flags :: "u8 list \<Rightarrow> 3 word" where
  "rfc_flags bs = ucast (drop_bit 5 (bs ! 20))"

text \<open>C26: The stored \<open>version\<close> is the header length of the wire and the stored \<open>ihl\<close> its
  version; the stored \<open>flags\<close> are the three lowest bits of byte 20, which belong to the fragment
  offset.\<close>

theorem deserialize_nibbles:
  assumes "length bs = 64"
  shows "let h = ipv4_deserialize (le_word bs) 0 old in
     version h = rfc_ihl bs \<and> ihl h = rfc_version bs \<and> flags h = ucast (bs ! 20)"
proof -
  have n: "(14 * 8 + k) div 8 = 14" "(14 * 8 + k) mod 8 = k"
    "(20 * 8 + k) div 8 = 20" "(20 * 8 + k) mod 8 = k" if "k < 8" for k :: nat
    using that by presburger+
  have "bit (le_word bs :: bus) (112 + k) = bit (bs ! 14) k"
    "bit (le_word bs :: bus) (160 + k) = bit (bs ! 20) k" if "k < 8" for k
    using that n [OF that] assms by (simp_all add: bit_rules)
  note b = this
  have v: "(ap_range 115 112 (le_word bs :: bus) :: 4 word) = ucast (bs ! 14)"
    by (rule bit_word_eqI) (simp add: bit_ap_range b bit_simps)
  have i: "(ap_range 119 116 (le_word bs :: bus) :: 4 word) = ucast (drop_bit 4 (bs ! 14))"
    using b(1) [of "4 + k" for k]
    by (intro bit_word_eqI) (simp add: bit_ap_range bit_simps add.assoc [symmetric])
  have f: "(ap_range 162 160 (le_word bs :: bus) :: 3 word) = ucast (bs ! 20)"
    by (rule bit_word_eqI) (simp add: bit_ap_range b bit_simps)
  show ?thesis
    by (simp add: ipv4_deserialize_def rfc_version_def rfc_ihl_def v i f)
qed

theorem deserialize_nibbles_witness:
  "let h = ipv4_deserialize (le_word (replicate 14 0 @ [0x45] @ replicate 49 0)) 0 undefined in
     version h = 5 \<and> ihl h = 4"
  using deserialize_nibbles [of "replicate 14 0 @ [0x45] @ replicate 49 0" undefined]
  by (simp add: nth_append rfc_version_def rfc_ihl_def Let_def del: le_word.simps)

end
