(* ===== verification/Filter_Core.thy ===== *)
theory Filter_Core
  imports Toeplitz_Hash Network_Headers "HOL-Library.Sublist"
begin

text \<open>
  The filter core (\<open>hardware/src/hls/packet_filter.cc\<close>): the stream word \<open>axis_250_t\<close>, the
  statistics, the function-static variables of \<open>process_packet\<close> and one call of it, which the
  generated circuit repeats for ever. An event of the surroundings is a stream word that
  arrives, a configuration register that software writes, or one call. \<open>hls::stream\<close> is the
  FIFO the language documents: \<open>empty\<close>, \<open>>>\<close> and \<open><<\<close> are list operations, and the output
  stream is never full. Of the fields of \<open>ap_axiu\<close> a stream word keeps the four that the code
  copies to the output; the byte strobes \<open>strb\<close> it does not copy, and the shell leaves them
  unconnected there. That a word leaves the core unchanged means these four fields.
\<close>

unbundle bit_operations_syntax

section \<open>State\<close>

record statistics_t =
  pkt_in :: u64
  phit_in :: u64
  pkt_forward :: u64
  pkt_drop :: u64

record axis_250_t =
  data :: bus
  keep :: u64
  user :: "48 word"
  last_phit :: bool

text \<open>The static variables of \<open>process_packet\<close>.\<close>

record core_statics =
  hash_table :: toeplitz_hash
  local_stats :: statistics_t
  phit_idx :: u32
  network :: NetworkPacket

text \<open>Its arguments: the two streams, the configuration inputs and the statistics output.\<close>

record core_ports =
  s_axis :: "axis_250_t list"
  m_axis :: "axis_250_t list"
  ipv4_addr :: u32
  udp_port :: u16
  action :: u8
  stats :: statistics_t

type_synonym core = "core_ports \<times> core_statics"

definition stats_zero :: statistics_t where
  "stats_zero = \<lparr>pkt_in = 0, phit_in = 0, pkt_forward = 0, pkt_drop = 0\<rparr>"

section \<open>One call\<close>

text \<open>The action of a received header: the table entry for IPv4 with UDP, drop otherwise.\<close>

definition header_action :: "toeplitz_hash \<Rightarrow> NetworkPacket \<Rightarrow> u32" where
  "header_action h n =
     (if is_ipv4 (eth_hdr n) \<and> is_udp (ip_hdr n)
      then ht_lookup h (dest_ip (ip_hdr n)) (dest_port (udp_hdr n)) else 0)"

text \<open>The statistics update at the last phit; \<open>idx\<close> is \<open>phit_idx\<close> as the code has it there.\<close>

definition count_packet :: "u32 \<Rightarrow> u32 \<Rightarrow> statistics_t \<Rightarrow> statistics_t" where
  "count_packet table_action idx ls =
     (let ls = ls\<lparr>pkt_in := pkt_in ls + 1\<rparr>;
          ls = ls\<lparr>phit_in := phit_in ls + scast (idx + 1)\<rparr>
      in if table_action = 1 then ls\<lparr>pkt_forward := pkt_forward ls + 1\<rparr>
         else ls\<lparr>pkt_drop := pkt_drop ls + 1\<rparr>)"

definition process_packet :: "core \<Rightarrow> core" where
  "process_packet = (\<lambda>(io, st).
     case s_axis io of
       [] \<Rightarrow>
         (io\<lparr>stats := local_stats st\<rparr>,
          st\<lparr>hash_table := ht_insert (hash_table st) (ipv4_addr io) (udp_port io) (ucast (action io))\<rparr>)
     | incoming_phit # rest \<Rightarrow>
         (let io = io\<lparr>s_axis := rest\<rparr>;
              st = st\<lparr>network := network_deserialize (data incoming_phit) (phit_idx st) (network st)\<rparr>;
              table_action = header_action (hash_table st) (network st);
              outgoing_phit = \<lparr>data = data incoming_phit, keep = keep incoming_phit,
                user = user incoming_phit, last_phit = last_phit incoming_phit\<rparr>;
              io = (if table_action = 1 then io\<lparr>m_axis := m_axis io @ [outgoing_phit]\<rparr> else io);
              st = st\<lparr>phit_idx := if last_phit incoming_phit then 0 else phit_idx st + 1\<rparr>;
              st = (if last_phit incoming_phit
                    then st\<lparr>local_stats := count_packet table_action (phit_idx st) (local_stats st)\<rparr>
                    else st)
          in (io, st)))"

text \<open>The top function only forwards its arguments.\<close>

definition packet_filter :: "core \<Rightarrow> core" where
  "packet_filter = process_packet"

section \<open>The circuit in its surroundings\<close>

datatype core_event =
    Arrive axis_250_t
  | SetIpv4Addr u32
  | SetUdpPort u16
  | SetAction u8
  | Call

fun core_next :: "core_event \<Rightarrow> core \<Rightarrow> core" where
  "core_next (Arrive p) (io, st) = (io\<lparr>s_axis := s_axis io @ [p]\<rparr>, st)"
| "core_next (SetIpv4Addr a) (io, st) = (io\<lparr>ipv4_addr := a\<rparr>, st)"
| "core_next (SetUdpPort p) (io, st) = (io\<lparr>udp_port := p\<rparr>, st)"
| "core_next (SetAction a) (io, st) = (io\<lparr>action := a\<rparr>, st)"
| "core_next Call s = packet_filter s"

definition core_run :: "core_event list \<Rightarrow> core \<Rightarrow> core" where
  "core_run es s = fold core_next es s"

text \<open>The static variables are zero before the first call, but for the constructed hash key.\<close>

definition network_zero :: NetworkPacket where
  "network_zero =
     \<lparr>eth_hdr = \<lparr>dest_mac = 0, src_mac = 0, eth_type = 0\<rparr>,
      ip_hdr = \<lparr>version = 0, ihl = 0, dscp_ecn = 0, total_length = 0, identification = 0,
        flags = 0, fragment_offset = 0, ttl = 0, protocol = 0, header_checksum = 0,
        src_ip = 0, dest_ip = 0\<rparr>,
      udp_hdr = \<lparr>src_port = 0, dest_port = 0, udp_length = 0, checksum = 0\<rparr>\<rparr>"

definition core_init :: core where
  "core_init =
     (\<lparr>s_axis = [], m_axis = [], ipv4_addr = 0, udp_port = 0, action = 0, stats = stats_zero\<rparr>,
      \<lparr>hash_table = hash_init, local_stats = stats_zero, phit_idx = 0, network = network_zero\<rparr>)"

inductive core_reachable :: "core \<Rightarrow> bool" where
  start: "core_reachable core_init"
| step: "core_reachable s \<Longrightarrow> core_reachable (core_next e s)"

lemma core_run_simps [simp]:
  "core_run [] s = s" "core_run (e # es) s = core_run es (core_next e s)"
  by (simp_all add: core_run_def)

lemma core_run_append [simp]: "core_run (es @ es') s = core_run es' (core_run es s)"
  by (simp add: core_run_def)

lemma core_run_reachable: "core_reachable s \<Longrightarrow> core_reachable (core_run es s)"
proof (induction es arbitrary: s)
  case (Cons e es)
  then show ?case by (metis core_run_simps(2) core_reachable.step)
qed simp

section \<open>The two branches of a call\<close>

lemma outgoing_phit_eq [simp]:
  "\<lparr>data = data p, keep = keep p, user = user p, last_phit = last_phit p\<rparr> = p"
  by simp

text \<open>An idle call programs the table and publishes the statistics.\<close>

lemma call_idle:
  "s_axis io = [] \<Longrightarrow> process_packet (io, st) =
     (io\<lparr>stats := local_stats st\<rparr>,
      st\<lparr>hash_table := ht_insert (hash_table st) (ipv4_addr io) (udp_port io) (ucast (action io))\<rparr>)"
  by (simp add: process_packet_def)

text \<open>A busy call consumes one stream word.\<close>

lemma call_busy:
  assumes "s_axis io = p # rest"
    and "n = network_deserialize (data p) (phit_idx st) (network st)"
    and "a = header_action (hash_table st) n"
  shows "process_packet (io, st) =
     (io\<lparr>s_axis := rest, m_axis := m_axis io @ (if a = 1 then [p] else [])\<rparr>,
      st\<lparr>network := n, phit_idx := if last_phit p then 0 else phit_idx st + 1,
         local_stats := if last_phit p then count_packet a 0 (local_stats st) else local_stats st\<rparr>)"
  using assms by (simp add: process_packet_def Let_def)

section \<open>Invariants of the reachable states\<close>

definition stats_ok :: "statistics_t \<Rightarrow> bool" where
  "stats_ok s \<longleftrightarrow> pkt_in s = pkt_forward s + pkt_drop s \<and> phit_in s = pkt_in s"

definition core_inv :: "core \<Rightarrow> bool" where
  "core_inv s \<longleftrightarrow> ht_wf (hash_table (snd s)) \<and> stats_ok (local_stats (snd s)) \<and> stats_ok (stats (fst s))"

lemma count_packet_simps [simp]:
  "pkt_in (count_packet a i ls) = pkt_in ls + 1"
  "phit_in (count_packet a i ls) = phit_in ls + scast (i + 1)"
  "pkt_forward (count_packet a i ls) = pkt_forward ls + of_bool (a = 1)"
  "pkt_drop (count_packet a i ls) = pkt_drop ls + of_bool (a \<noteq> 1)"
  by (simp_all add: count_packet_def Let_def)

lemma count_packet_ok: "stats_ok ls \<Longrightarrow> stats_ok (count_packet a 0 ls)"
  by (simp add: stats_ok_def)

lemma core_inv_init: "core_inv core_init"
  by (simp add: core_inv_def core_init_def stats_ok_def stats_zero_def)

lemma core_inv_call: "core_inv (io, st) \<Longrightarrow> core_inv (process_packet (io, st))"
  by (cases "s_axis io") (simp_all add: core_inv_def call_idle call_busy count_packet_ok)

lemma core_inv_next: "core_inv s \<Longrightarrow> core_inv (core_next e s)"
  by (cases s; cases e) (auto simp: core_inv_call packet_filter_def, auto simp: core_inv_def)

lemma core_reachable_inv: "core_reachable s \<Longrightarrow> core_inv s"
  by (induction rule: core_reachable.induct) (simp_all add: core_inv_init core_inv_next)

section \<open>What leaves the core came in\<close>

primrec arrivals :: "core_event list \<Rightarrow> axis_250_t list" where
  "arrivals [] = []"
| "arrivals (e # es) = (case e of Arrive p \<Rightarrow> [p] | _ \<Rightarrow> []) @ arrivals es"

lemma arrivals_append [simp]: "arrivals (es @ es') = arrivals es @ arrivals es'"
  by (induction es) simp_all

text \<open>The relation of a state to the stream words seen so far: the ones not yet read are still
  queued, the output is a subsequence of the ones read, and each read last phit was counted.\<close>

definition io_inv :: "axis_250_t list \<Rightarrow> core \<Rightarrow> bool" where
  "io_inv as s \<longleftrightarrow>
     (\<exists>done. as = done @ s_axis (fst s) \<and> subseq (m_axis (fst s)) done \<and>
       pkt_in (local_stats (snd s)) = of_nat (length (filter last_phit done)))"

lemma io_inv_call:
  assumes "io_inv as (io, st)"
  shows "io_inv as (process_packet (io, st))"
proof (cases "s_axis io")
  case Nil
  with assms show ?thesis by (simp add: call_idle io_inv_def)
next
  case (Cons p rest)
  from assms Cons obtain d where d: "as = d @ p # rest" "subseq (m_axis io) d"
    "pkt_in (local_stats st) = of_nat (length (filter last_phit d))"
    by (auto simp: io_inv_def)
  have "subseq (m_axis io @ xs) (d @ [p])" if "subseq xs [p]" for xs
    using d(2) that by (rule list_emb_append_mono)
  then have "io_inv as (process_packet (io, st)) \<longleftrightarrow> True"
    unfolding call_busy [OF Cons refl refl] io_inv_def
    using d by (auto intro!: exI [of _ "d @ [p]"] simp: count_packet_def Let_def)
  then show ?thesis by simp
qed

lemma io_inv_next:
  "io_inv as s \<Longrightarrow> io_inv (as @ arrivals [e]) (core_next e s)"
proof (cases s; cases e)
  fix io st p
  assume "io_inv as s" "s = (io, st)" "e = Arrive p"
  then show ?thesis by (auto simp: io_inv_def)
next
  fix io st
  assume "io_inv as s" "s = (io, st)" "e = Call"
  then show ?thesis by (simp add: packet_filter_def io_inv_call)
qed (auto simp: io_inv_def)

lemma io_inv_run: "io_inv as s \<Longrightarrow> io_inv (as @ arrivals es) (core_run es s)"
proof (induction es arbitrary: as s)
  case (Cons e es)
  from Cons.IH [OF io_inv_next [OF Cons.prems, of e]] show ?case by simp
qed simp

section \<open>Whole packets\<close>

text \<open>
  The contract of the core: a packet is a non-empty sequence of stream words of which the last
  alone is marked, and a packet whose header has action 1 in the table is forwarded whole, any
  other is dropped whole. The bound on the length keeps the \<open>int\<close> that counts the words of a
  packet from overflowing.
\<close>

definition wf_packet :: "axis_250_t list \<Rightarrow> bool" where
  "wf_packet p \<longleftrightarrow> p \<noteq> [] \<and> length p < 2 ^ 31 \<and> last_phit (last p) \<and> list_all (\<lambda>q. \<not> last_phit q) (butlast p)"

definition packet_action :: "toeplitz_hash \<Rightarrow> axis_250_t list \<Rightarrow> u32" where
  "packet_action h p = header_action h (network_deserialize (data (hd p)) 0 network_zero)"

definition forwarded :: "toeplitz_hash \<Rightarrow> axis_250_t list list \<Rightarrow> axis_250_t list list" where
  "forwarded h pkts = filter (\<lambda>p. packet_action h p = 1) pkts"

text \<open>The rest of a packet, once its headers are stored.\<close>

lemma calls_tail:
  assumes "ps \<noteq> []" and "list_all (\<lambda>q. \<not> last_phit q) (butlast ps)" and "last_phit (last ps)"
    and "unat (phit_idx st) + length ps \<le> 2 ^ 32" and "phit_idx st \<noteq> 0"
    and "s_axis io = ps @ rest" and "a = header_action (hash_table st) (network st)"
  shows "core_run (replicate (length ps) Call) (io, st) =
     (io\<lparr>s_axis := rest, m_axis := m_axis io @ (if a = 1 then ps else [])\<rparr>,
      st\<lparr>phit_idx := 0, local_stats := count_packet a 0 (local_stats st)\<rparr>)"
  using assms
proof (induction ps arbitrary: io st)
  case Nil
  then show ?case by simp
next
  case (Cons p ps)
  have n: "network_deserialize (data p) (phit_idx st) (network st) = network st"
    using Cons.prems(5) by simp
  have c: "process_packet (io, st) =
      (io\<lparr>s_axis := ps @ rest, m_axis := m_axis io @ (if a = 1 then [p] else [])\<rparr>,
       st\<lparr>phit_idx := if last_phit p then 0 else phit_idx st + 1,
          local_stats := if last_phit p then count_packet a 0 (local_stats st) else local_stats st\<rparr>)"
    using call_busy [of io p "ps @ rest" "network st" st a] Cons.prems n by simp
  show ?case
  proof (cases ps)
    case Nil
    with Cons.prems c show ?thesis by (simp add: packet_filter_def)
  next
    case (Cons q qs)
    with Cons.prems have l: "\<not> last_phit p" by simp
    have u: "unat (phit_idx st + 1) = unat (phit_idx st) + 1"
      using Cons.prems(4) Cons by (subst unat_add_lem [THEN iffD1]) simp_all
    then have nz: "phit_idx st + 1 \<noteq> 0" by (metis add_is_0 one_neq_zero unat_0)
    from c l Cons.IH [of "st\<lparr>phit_idx := phit_idx st + 1\<rparr>"
        "io\<lparr>s_axis := ps @ rest, m_axis := m_axis io @ (if a = 1 then [p] else [])\<rparr>"]
    show ?thesis
      using Cons Cons.prems u nz by (simp add: packet_filter_def)
  qed
qed

lemma calls_packet:
  assumes "wf_packet p" and "phit_idx st = 0" and "s_axis io = p @ rest"
    and "n = network_deserialize (data (hd p)) 0 network_zero"
    and "a = packet_action (hash_table st) p"
  shows "core_run (replicate (length p) Call) (io, st) =
     (io\<lparr>s_axis := rest, m_axis := m_axis io @ (if a = 1 then p else [])\<rparr>,
      st\<lparr>network := n, phit_idx := 0, local_stats := count_packet a 0 (local_stats st)\<rparr>)"
proof -
  obtain q ps where p: "p = q # ps" using assms(1) by (cases p) (auto simp: wf_packet_def)
  have n: "network_deserialize (data q) (phit_idx st) (network st) = n"
    using assms(2,4) p network_deserialize_old [of "data q" "network st" network_zero] by simp
  have a: "a = header_action (hash_table st) n"
    using assms(4,5) by (simp add: packet_action_def)
  have c: "process_packet (io, st) =
      (io\<lparr>s_axis := ps @ rest, m_axis := m_axis io @ (if a = 1 then [q] else [])\<rparr>,
       st\<lparr>network := n, phit_idx := if last_phit q then 0 else 1,
          local_stats := if last_phit q then count_packet a 0 (local_stats st) else local_stats st\<rparr>)"
    using call_busy [of io q "ps @ rest" n st a] assms(2,3) p n a by simp
  show ?thesis
  proof (cases "ps = []")
    case True
    with assms(1) p c show ?thesis by (simp add: packet_filter_def wf_packet_def)
  next
    case False
    with assms(1) p have l: "\<not> last_phit q" and w: "list_all (\<lambda>q. \<not> last_phit q) (butlast ps)"
      "last_phit (last ps)" "length ps < 2 ^ 31"
      by (simp_all add: wf_packet_def)
    from c l calls_tail [OF False w(1,2), of "st\<lparr>network := n, phit_idx := 1\<rparr>"
        "io\<lparr>s_axis := ps @ rest, m_axis := m_axis io @ (if a = 1 then [q] else [])\<rparr>" rest a] a w
    show ?thesis by (simp add: p packet_filter_def)
  qed
qed

lemma calls_packets:
  assumes "list_all wf_packet pkts" and "phit_idx st = 0" and "s_axis io = concat pkts @ rest"
  shows "\<exists>n. core_run (replicate (length (concat pkts)) Call) (io, st) =
     (io\<lparr>s_axis := rest, m_axis := m_axis io @ concat (forwarded (hash_table st) pkts)\<rparr>,
      st\<lparr>network := n,
         local_stats := fold (\<lambda>p. count_packet (packet_action (hash_table st) p) 0) pkts (local_stats st)\<rparr>)"
  using assms
proof (induction pkts arbitrary: io st)
  case Nil
  then show ?case by (auto simp: forwarded_def intro!: exI [of _ "network st"])
next
  case (Cons p pkts)
  define n where "n = network_deserialize (data (hd p)) 0 network_zero"
  define a where "a = packet_action (hash_table st) p"
  define io' where "io' = io\<lparr>s_axis := concat pkts @ rest, m_axis := m_axis io @ (if a = 1 then p else [])\<rparr>"
  define st' where "st' = st\<lparr>network := n, phit_idx := 0, local_stats := count_packet a 0 (local_stats st)\<rparr>"
  have "core_run (replicate (length p) Call) (io, st) = (io', st')"
    unfolding io'_def st'_def
    using Cons.prems by (intro calls_packet) (simp_all add: n_def a_def)
  moreover obtain m where "core_run (replicate (length (concat pkts)) Call) (io', st') =
     (io'\<lparr>s_axis := rest, m_axis := m_axis io' @ concat (forwarded (hash_table st') pkts)\<rparr>,
      st'\<lparr>network := m,
         local_stats := fold (\<lambda>p. count_packet (packet_action (hash_table st') p) 0) pkts (local_stats st')\<rparr>)"
    using Cons.IH [of st' io'] Cons.prems by (auto simp: io'_def st'_def)
  ultimately have "core_run (replicate (length (concat (p # pkts))) Call) (io, st) =
     (io\<lparr>s_axis := rest, m_axis := m_axis io @ concat (forwarded (hash_table st) (p # pkts))\<rparr>,
      st\<lparr>network := m, local_stats :=
         fold (\<lambda>p. count_packet (packet_action (hash_table st) p) 0) (p # pkts) (local_stats st)\<rparr>)"
    using Cons.prems(2)
    by (simp add: replicate_add forwarded_def io'_def st'_def a_def [symmetric])
  then show ?case by blast
qed

lemma fold_count_packet:
  "pkt_in (fold (\<lambda>p. count_packet (packet_action h p) 0) pkts ls) = pkt_in ls + of_nat (length pkts)"
  "pkt_forward (fold (\<lambda>p. count_packet (packet_action h p) 0) pkts ls) =
     pkt_forward ls + of_nat (length (forwarded h pkts))"
  by (induction pkts arbitrary: ls) (simp_all add: forwarded_def)

section \<open>Which packets can appear at the output\<close>

definition udp4_packet :: "axis_250_t list \<Rightarrow> bool" where
  "udp4_packet p \<longleftrightarrow>
     (let n = network_deserialize (data (hd p)) 0 network_zero in is_ipv4 (eth_hdr n) \<and> is_udp (ip_hdr n))"

text \<open>The packets of a sequence of stream words; \<open>cur\<close> is the part of a packet seen before.\<close>

fun packets_of :: "axis_250_t list \<Rightarrow> axis_250_t list \<Rightarrow> axis_250_t list list" where
  "packets_of cur [] = (if cur = [] then [] else [cur])"
| "packets_of cur (p # ps) =
     (if last_phit p then (cur @ [p]) # packets_of [] ps else packets_of (cur @ [p]) ps)"

text \<open>No packet is longer than the word counter can count.\<close>

fun short_packets :: "nat \<Rightarrow> axis_250_t list \<Rightarrow> bool" where
  "short_packets k [] = True"
| "short_packets k (p # ps) = (k < 2 ^ 31 \<and> short_packets (if last_phit p then 0 else Suc k) ps)"

lemma short_packets_prefix: "short_packets k (xs @ ys) \<Longrightarrow> short_packets k xs"
  by (induction xs arbitrary: k) auto

text \<open>A whole packet, and the words read so far: whole packets \<open>pre\<close> and a part \<open>cur\<close>.\<close>

definition ended :: "axis_250_t list \<Rightarrow> bool" where
  "ended p \<longleftrightarrow> p \<noteq> [] \<and> last_phit (last p) \<and> list_all (\<lambda>q. \<not> last_phit q) (butlast p)"

definition seg_inv :: "axis_250_t list \<Rightarrow> core \<Rightarrow> axis_250_t list \<Rightarrow> axis_250_t list list \<Rightarrow> bool" where
  "seg_inv as s cur pre \<longleftrightarrow>
     as = concat pre @ cur @ s_axis (fst s) \<and> list_all ended pre \<and> list_all (\<lambda>q. \<not> last_phit q) cur \<and>
     phit_idx (snd s) = of_nat (length cur) \<and>
     (cur \<noteq> [] \<longrightarrow> network (snd s) = network_deserialize (data (hd cur)) 0 network_zero) \<and>
     subseq (m_axis (fst s)) (concat (filter udp4_packet pre) @ (if udp4_packet cur then cur else []))"

lemma packets_of_part:
  "list_all (\<lambda>q. \<not> last_phit q) xs \<Longrightarrow> packets_of cur (xs @ ys) = packets_of (cur @ xs) ys"
  by (induction xs arbitrary: cur) simp_all

lemma short_packets_part:
  "list_all (\<lambda>q. \<not> last_phit q) xs \<Longrightarrow> short_packets k (xs @ ys) \<Longrightarrow> short_packets (k + length xs) ys"
proof (induction xs arbitrary: k)
  case (Cons x xs)
  then show ?case using Cons.IH [of "Suc k"] by simp
qed simp

lemma ended_cases:
  assumes "ended p"
  obtains qs q where "p = qs @ [q]" "last_phit q" "list_all (\<lambda>q. \<not> last_phit q) qs"
  using assms append_butlast_last_id [of p] unfolding ended_def by metis

lemma packets_of_ended: "list_all ended pre \<Longrightarrow> packets_of [] (concat pre @ ys) = pre @ packets_of [] ys"
proof (induction pre)
  case (Cons p pre)
  then have "ended p" by simp
  then obtain qs q where "p = qs @ [q]" "last_phit q" "list_all (\<lambda>q. \<not> last_phit q) qs"
    by (rule ended_cases)
  with Cons show ?case by (simp add: packets_of_part)
qed simp

lemma short_packets_ended:
  "list_all ended pre \<Longrightarrow> short_packets 0 (concat pre @ ys) \<Longrightarrow> short_packets 0 ys"
proof (induction pre)
  case (Cons p pre)
  then have "ended p" by simp
  then obtain qs q where "p = qs @ [q]" "last_phit q" "list_all (\<lambda>q. \<not> last_phit q) qs"
    by (rule ended_cases)
  with Cons show ?case using short_packets_part [of qs 0 "q # concat pre @ ys"] by simp
qed simp

lemma packets_of_extends:
  "cur \<noteq> [] \<Longrightarrow> \<exists>x ps. packets_of cur ys = (cur @ x) # ps"
proof (induction ys arbitrary: cur)
  case (Cons y ys)
  then show ?case using Cons.IH [of "cur @ [y]"] by auto
qed simp

lemma udp4_packet_append: "cur \<noteq> [] \<Longrightarrow> udp4_packet (cur @ x) = udp4_packet cur"
  by (simp add: udp4_packet_def)

lemma seg_inv_output:
  assumes "seg_inv as s cur pre"
  shows "subseq (m_axis (fst s)) (concat (filter udp4_packet (packets_of [] as)))"
proof -
  let ?q = "s_axis (fst s)"
  have e: "packets_of [] as = pre @ packets_of cur ?q"
    using assms by (simp add: seg_inv_def packets_of_ended packets_of_part)
  have "subseq (if udp4_packet cur then cur else []) (concat (filter udp4_packet (packets_of cur ?q)))"
    using packets_of_extends [of cur ?q] udp4_packet_append [of cur]
    by (cases "cur = []") (auto simp: list_emb_append2 subseq_rev_drop_many)
  then have "subseq (concat (filter udp4_packet pre) @ (if udp4_packet cur then cur else []))
      (concat (filter udp4_packet (packets_of [] as)))"
    unfolding e by (simp add: list_emb_append_mono)
  then show ?thesis
    using assms subseq_order.order_trans unfolding seg_inv_def by blast
qed

lemma seg_inv_call:
  assumes inv: "seg_inv as (io, st) cur pre" and short: "short_packets 0 as"
  shows "\<exists>cur pre. seg_inv as (process_packet (io, st)) cur pre"
proof (cases "s_axis io")
  case Nil
  with inv have "seg_inv as (process_packet (io, st)) cur pre" by (simp add: call_idle seg_inv_def)
  then show ?thesis by blast
next
  case (Cons p rest)
  let ?n = "network_deserialize (data p) (phit_idx st) (network st)"
  let ?cur = "cur @ [p]"
  note i = inv [unfolded seg_inv_def fst_conv snd_conv]
  have "short_packets (length cur) (p # rest)"
    using i short Cons short_packets_ended [of pre "cur @ p # rest"]
      short_packets_part [of cur 0 "p # rest"] by simp
  then have len: "length cur < 2 ^ 31" by simp
  have n: "?n = network_deserialize (data (hd ?cur)) 0 network_zero"
  proof (cases "cur = []")
    case True
    with i show ?thesis using network_deserialize_old by simp
  next
    case False
    then have "of_nat (length cur) \<noteq> (0 :: u32)"
      using len by (simp add: word_of_nat_eq_0_iff nat_dvd_not_less)
    with False i show ?thesis by simp
  qed
  define a where "a = header_action (hash_table st) ?n"
  have udp: "a = 1 \<Longrightarrow> udp4_packet ?cur"
    by (auto simp: a_def header_action_def udp4_packet_def n Let_def split: if_splits)
  let ?m = "m_axis io @ (if a = 1 then [p] else [])"
  have "subseq (if udp4_packet cur then cur else []) (if udp4_packet ?cur then cur else [])"
    by (cases "cur = []") (simp_all add: udp4_packet_append)
  then have old: "subseq (m_axis io) (concat (filter udp4_packet pre) @ (if udp4_packet ?cur then cur else []))"
    using i by (meson list_emb_append_mono subseq_order.order_refl subseq_order.order_trans)
  have "subseq ?m ((concat (filter udp4_packet pre) @ (if udp4_packet ?cur then cur else [])) @
      (if udp4_packet ?cur then [p] else []))"
    using udp by (intro list_emb_append_mono [OF old]) auto
  then have sub: "subseq ?m (concat (filter udp4_packet pre) @ (if udp4_packet ?cur then ?cur else []))"
    by (cases "udp4_packet ?cur") simp_all
  show ?thesis
  proof (cases "last_phit p")
    case True
    have "seg_inv as (process_packet (io, st)) [] (pre @ [?cur])"
      unfolding call_busy [OF Cons refl refl] a_def [symmetric] seg_inv_def
      using i Cons True sub by (cases "a = 1"; cases "udp4_packet ?cur") (simp_all add: ended_def)
    then show ?thesis by blast
  next
    case False
    have "seg_inv as (process_packet (io, st)) ?cur pre"
      unfolding call_busy [OF Cons refl refl] a_def [symmetric] seg_inv_def
      using i Cons False sub n by simp
    then show ?thesis by blast
  qed
qed

lemma seg_inv_input:
  "e \<noteq> Call \<Longrightarrow> seg_inv as s cur pre \<Longrightarrow> seg_inv (as @ arrivals [e]) (core_next e s) cur pre"
  by (cases s; cases e) (simp_all add: seg_inv_def)

lemma seg_inv_next:
  assumes "seg_inv as s cur pre" and "short_packets 0 as"
  shows "\<exists>cur pre. seg_inv (as @ arrivals [e]) (core_next e s) cur pre"
proof (cases "e = Call")
  case True
  with assms show ?thesis by (cases s) (simp add: packet_filter_def seg_inv_call)
next
  case False
  with seg_inv_input [OF this assms(1)] show ?thesis by blast
qed

lemma seg_inv_run:
  assumes "seg_inv as s cur pre" and "short_packets 0 (as @ arrivals es)"
  shows "\<exists>cur pre. seg_inv (as @ arrivals es) (core_run es s) cur pre"
  using assms
proof (induction es arbitrary: as s cur pre)
  case Nil
  then show ?case by auto
next
  case (Cons e es)
  from Cons.prems(2) have "short_packets 0 as" by (rule short_packets_prefix)
  from seg_inv_next [OF Cons.prems(1) this, of e] obtain cur' pre'
    where "seg_inv (as @ arrivals [e]) (core_next e s) cur' pre'" by blast
  from Cons.IH [OF this] Cons.prems(2) show ?case by simp
qed

section \<open>Properties\<close>

text \<open>C2: Functional correctness of the filter: when whole packets are queued, the core's calls
  forward exactly the packets whose header has action 1 in the table, whole, unmodified and in
  order, leave the table alone, are ready for the next packet, and count each packet once.\<close>

theorem filter_refines_spec:
  assumes "list_all wf_packet pkts" and "phit_idx st = 0" and "s_axis io = concat pkts @ rest"
  shows "let (io', st') = core_run (replicate (length (concat pkts)) Call) (io, st) in
     m_axis io' = m_axis io @ concat (forwarded (hash_table st) pkts) \<and> s_axis io' = rest \<and>
     hash_table st' = hash_table st \<and> phit_idx st' = 0 \<and>
     pkt_in (local_stats st') = pkt_in (local_stats st) + of_nat (length pkts) \<and>
     pkt_forward (local_stats st') =
       pkt_forward (local_stats st) + of_nat (length (forwarded (hash_table st) pkts))"
  using calls_packets [OF assms] assms(2) by (auto simp: fold_count_packet)

theorem filter_refines_spec_witness:
  "let p = \<lparr>data = 0x110000000000000000000008000000000000000000000000, keep = 0,
              user = 0, last_phit = False\<rparr>;
       q = \<lparr>data = 0, keep = 0, user = 0, last_phit = True\<rparr>;
       st = snd core_init\<lparr>hash_table := hash_init\<lparr>table := replicate 32 1\<rparr>\<rparr>
   in m_axis (fst (core_run (replicate 3 Call) (fst core_init\<lparr>s_axis := [p, q, q]\<rparr>, st))) = [p, q]"
proof -
  let ?p = "\<lparr>data = 0x110000000000000000000008000000000000000000000000, keep = 0,
    user = 0, last_phit = False\<rparr>"
  let ?q = "\<lparr>data = 0, keep = 0, user = 0, last_phit = True\<rparr>"
  let ?h = "hash_init\<lparr>table := replicate 32 1\<rparr>"
  have h: "ht_lookup ?h ip port = 1" for ip port
    using hash_index_less [of ?h ip port] by (simp add: ht_lookup_def HASH_TABLE_SIZE_def)
  have a: "packet_action ?h [?p, ?q] = 1" "packet_action ?h [?q] = 0"
    by (simp_all add: packet_action_def header_action_def h network_deserialize_def is_ipv4_def
        is_udp_def header_defs ap_range_def IPV4_def UDP_def bswap16_def)
  show ?thesis
    using filter_refines_spec [of "[[?p, ?q], [?q]]" "snd core_init\<lparr>hash_table := ?h\<rparr>"
        "fst core_init\<lparr>s_axis := [?p, ?q, ?q]\<rparr>" "[]"] a
    by (simp add: wf_packet_def forwarded_def core_init_def case_prod_unfold numeral_3_eq_3 Let_def)
qed

text \<open>C3: Under every interleaving of arrivals, configuration writes and calls, the output is a
  subsequence of the arrived packets that are IPv4 with UDP: nothing is invented, reordered or
  modified, and no other traffic passes.\<close>

theorem output_only_udp4:
  assumes "short_packets 0 (arrivals es)"
  shows "subseq (m_axis (fst (core_run es core_init)))
     (concat (filter udp4_packet (packets_of [] (arrivals es))))"
proof -
  have "seg_inv [] core_init [] []" by (simp add: seg_inv_def core_init_def)
  from seg_inv_run [OF this, of es] assms obtain cur pre
    where "seg_inv (arrivals es) (core_run es core_init) cur pre" by auto
  then show ?thesis by (rule seg_inv_output)
qed

theorem output_only_udp4_witness:
  "let q = \<lparr>data = 0, keep = 0, user = 0, last_phit = True\<rparr> in
   m_axis (fst (core_run [Arrive q, SetAction 1, Call, Call] core_init)) = []"
proof -
  let ?q = "\<lparr>data = 0, keep = 0, user = 0, last_phit = True\<rparr>"
  have "\<not> udp4_packet [?q]"
    by (simp add: udp4_packet_def network_deserialize_def is_ipv4_def header_defs ap_range_def
        IPV4_def bswap16_def Let_def)
  then show ?thesis
    using output_only_udp4 [of "[Arrive ?q, SetAction 1, Call, Call]"] by simp
qed

text \<open>C21: In every reachable state the published and the internal statistics add up, and the
  counter \<open>phit_in\<close> equals \<open>pkt_in\<close>: the word count of a packet is added after \<open>phit_idx\<close> has
  been reset, so each packet counts as one word however long it is.\<close>

theorem reachable_statistics:
  assumes "core_reachable (io, st)"
  shows "pkt_in (stats io) = pkt_forward (stats io) + pkt_drop (stats io) \<and>
     phit_in (stats io) = pkt_in (stats io) \<and>
     pkt_in (local_stats st) = pkt_forward (local_stats st) + pkt_drop (local_stats st) \<and>
     phit_in (local_stats st) = pkt_in (local_stats st)"
  using core_reachable_inv [OF assms] by (simp add: core_inv_def stats_ok_def)

theorem reachable_statistics_witness:
  "let st = snd (core_run [Arrive \<lparr>data = 0, keep = 0, user = 0, last_phit = False\<rparr>,
       Arrive \<lparr>data = 0, keep = 0, user = 0, last_phit = True\<rparr>, Call, Call] core_init)
   in phit_in (local_stats st) = pkt_in (local_stats st)"
proof -
  let ?es = "[Arrive \<lparr>data = 0, keep = 0, user = 0, last_phit = False\<rparr>,
       Arrive \<lparr>data = 0, keep = 0, user = 0, last_phit = True\<rparr>, Call, Call]"
  have "core_reachable (core_run ?es core_init)"
    by (intro core_run_reachable core_reachable.start)
  then show ?thesis
    using reachable_statistics [of "fst (core_run ?es core_init)" "snd (core_run ?es core_init)"]
    by (simp add: Let_def)
qed

text \<open>C22: Every stream word that arrived is either still queued or was read in order, and the
  packet counter is the number of last words read.\<close>

theorem every_word_accounted:
  "\<exists>done. arrivals es = done @ s_axis (fst (core_run es core_init)) \<and>
     subseq (m_axis (fst (core_run es core_init))) done \<and>
     pkt_in (local_stats (snd (core_run es core_init))) = of_nat (length (filter last_phit done))"
proof -
  have "io_inv [] core_init" by (simp add: io_inv_def core_init_def stats_zero_def)
  from io_inv_run [OF this, of es] show ?thesis by (simp add: io_inv_def)
qed

text \<open>C23: The decision is taken again for every word of a packet. If the input runs dry inside a
  packet that is being forwarded while the configuration registers hold a rule of the same slot
  with another action, the idle call changes the table and the rest of the packet is dropped:
  the receiver gets its beginning without an end, and the packet counts as dropped.\<close>

theorem rule_change_truncates:
  assumes "ht_wf (hash_table st)" and "phit_idx st = 0" and "s_axis io = [p]"
    and "\<not> last_phit p" and "last_phit q" and "packet_action (hash_table st) [p] = 1"
    and "n = network_deserialize (data p) 0 network_zero"
    and "hash_index hash_init (ipv4_addr io) (udp_port io) =
      hash_index hash_init (dest_ip (ip_hdr n)) (dest_port (udp_hdr n))"
    and "action io \<noteq> 1"
  shows "let (io', st') = core_run [Call, Call, Arrive q, Call] (io, st) in
     m_axis io' = m_axis io @ [p] \<and> s_axis io' = [] \<and> phit_idx st' = 0 \<and>
     pkt_drop (local_stats st') = pkt_drop (local_stats st) + 1 \<and>
     pkt_forward (local_stats st') = pkt_forward (local_stats st)"
proof -
  have n: "network_deserialize (data p) (phit_idx st) (network st) = n"
    using assms(2,7) network_deserialize_old by simp
  have a: "header_action (hash_table st) n = 1"
    using assms(6,7) by (simp add: packet_action_def)
  then have u: "is_ipv4 (eth_hdr n) \<and> is_udp (ip_hdr n)"
    by (auto simp: header_action_def split: if_splits)
  let ?h = "ht_insert (hash_table st) (ipv4_addr io) (udp_port io) (ucast (action io))"
  have "ucast (action io) \<noteq> (1 :: u32)"
    using assms(9) ucast_extend_inject [of "action io" 1, where ?'b = 32] by simp
  then have b: "header_action ?h n \<noteq> 1"
    using assms(1,8) u by (simp add: header_action_def lookup_insert_index ht_wf_def hash_index_wf)
  show ?thesis
    using assms(2,4,5) n a b
    by (simp add: packet_filter_def call_busy [OF assms(3)] call_idle call_busy)
qed

theorem rule_change_truncates_witness:
  "let p = \<lparr>data = 0x110000000000000000000008000000000000000000000000, keep = 0, user = 0,
              last_phit = False\<rparr>;
       q = \<lparr>data = 0, keep = 0, user = 0, last_phit = True\<rparr>;
       st = snd core_init\<lparr>hash_table := hash_init\<lparr>table := replicate 32 1\<rparr>\<rparr>
   in m_axis (fst (core_run [Call, Call, Arrive q, Call] (fst core_init\<lparr>s_axis := [p]\<rparr>, st))) = [p]"
proof -
  let ?p = "\<lparr>data = 0x110000000000000000000008000000000000000000000000, keep = 0, user = 0,
    last_phit = False\<rparr>"
  let ?q = "\<lparr>data = 0, keep = 0, user = 0, last_phit = True\<rparr>"
  let ?h = "hash_init\<lparr>table := replicate 32 1\<rparr>"
  let ?n = "network_deserialize (data ?p) 0 network_zero"
  have h: "ht_lookup ?h ip port = 1" for ip port
    using hash_index_less [of ?h ip port] by (simp add: ht_lookup_def HASH_TABLE_SIZE_def)
  have "?n = network_zero\<lparr>eth_hdr := (eth_hdr network_zero)\<lparr>eth_type := 8\<rparr>,
      ip_hdr := (ip_hdr network_zero)\<lparr>protocol := 17\<rparr>\<rparr>"
    by (simp add: network_deserialize_def header_defs ap_range_def network_zero_def)
  then have d: "dest_ip (ip_hdr ?n) = 0" "dest_port (udp_hdr ?n) = 0"
    and a: "packet_action ?h [?p] = 1"
    by (simp_all add: network_zero_def packet_action_def header_action_def h is_ipv4_def is_udp_def
        IPV4_def UDP_def bswap16_def)
  have "ht_wf ?h"
    using ht_wf_init by (simp add: ht_wf_def HASH_TABLE_SIZE_def)
  from rule_change_truncates [of "snd core_init\<lparr>hash_table := ?h\<rparr>" "fst core_init\<lparr>s_axis := [?p]\<rparr>"
      ?p ?q ?n] this a d
  show ?thesis by (simp add: core_init_def case_prod_unfold Let_def)
qed

end
