(* ===== verification/Logging.thy ===== *)
theory Logging
  imports Filter_Prelude "HOL-Library.Monad_Syntax" "HOL-Library.Signed_Division"
begin

text \<open>
  The logger of the server (\<open>logging.h\<close>, \<open>logging.cc\<close>, \<open>deps.h\<close>): the levels, the decimal
  printer \<open>make_int\<close>, the 24-byte time stamp, and \<open>Log::log\<close> with its 4096-byte line buffer.
  A buffer is a list of characters; a write outside it is undefined behaviour and is the result
  \<open>None\<close>. The clock is a parameter: the broken-down time and the microseconds are arguments,
  integers without a bound, since no clock comes near the limits of \<open>int\<close>. The level of
  \<open>set_log_level\<close>, an \<open>int\<close> in the code, is one of the five the enumeration names.
\<close>

section \<open>Levels\<close>

datatype Level = FATAL | ERROR | WARN | INFO | DEBUG

fun level_num :: "Level \<Rightarrow> nat" where
  "level_num FATAL = 0"
| "level_num ERROR = 1"
| "level_num WARN = 2"
| "level_num INFO = 3"
| "level_num DEBUG = 4"

text \<open>Levels compare by their numbers.\<close>

instantiation Level :: linorder
begin

definition less_eq_Level :: "Level \<Rightarrow> Level \<Rightarrow> bool" where
  "a \<le> b \<longleftrightarrow> level_num a \<le> level_num b"

definition less_Level :: "Level \<Rightarrow> Level \<Rightarrow> bool" where
  "a < b \<longleftrightarrow> level_num a < level_num b"

instance
proof
  fix a b c :: Level
  show "a < b \<longleftrightarrow> a \<le> b \<and> \<not> b \<le> a" "a \<le> a" "a \<le> b \<or> b \<le> a"
    by (auto simp: less_eq_Level_def less_Level_def)
  show "a \<le> b \<Longrightarrow> b \<le> c \<Longrightarrow> a \<le> c" by (simp add: less_eq_Level_def)
  show "a \<le> b \<Longrightarrow> b \<le> a \<Longrightarrow> a = b"
    by (cases a; cases b) (simp_all add: less_eq_Level_def)
qed

end

fun level_str :: "Level \<Rightarrow> string" where
  "level_str FATAL = ''F''"
| "level_str ERROR = ''E''"
| "level_str WARN = ''W''"
| "level_str INFO = ''I''"
| "level_str DEBUG = ''D''"

text \<open>
  The static members: the level, the stream (a number, \<open>None\<close> for the null pointer; stream 1 is
  \<open>stdout\<close>), with the text each stream received, and the two setters. A failed assertion is
  \<open>None\<close>.
\<close>

record log_state =
  log_level :: Level
  fp_s :: "nat option"
  written :: "nat \<Rightarrow> string"

definition log_initial :: log_state where
  "log_initial = \<lparr>log_level = DEBUG, fp_s = Some 1, written = (\<lambda>_. [])\<rparr>"

definition set_log_file :: "nat option \<Rightarrow> log_state \<Rightarrow> log_state option" where
  "set_log_file fp st = (if fp_s st \<noteq> None then Some (st\<lparr>fp_s := fp\<rparr>) else None)"

definition set_log_level :: "Level \<Rightarrow> log_state \<Rightarrow> log_state" where
  "set_log_level l st = st\<lparr>log_level := l\<rparr>"

text \<open>The constructor of the static object in \<open>deps.h\<close>; the argument is the build flag.\<close>

definition dummy_class :: "bool \<Rightarrow> log_state \<Rightarrow> log_state" where
  "dummy_class log_level_debug st =
     (if log_level_debug then set_log_level DEBUG st else set_log_level INFO st)"

section \<open>Decimal digits\<close>

text \<open>C++ division truncates; on non-negative values it is the floor division.\<close>

lemma sdiv_nonneg:
  fixes a b :: int
  assumes "0 \<le> a" and "0 < b"
  shows "a sdiv b = a div b" and "a smod b = a mod b"
  using assms by (cases "a = 0"; simp add: signed_divide_int_def signed_modulo_int_def)+

definition digit_char :: "int \<Rightarrow> char" where
  "digit_char d = char_of ((48 + d) mod 256)"

text \<open>The loop of \<open>make_int\<close>: \<open>p\<close> is the write position, \<open>k\<close> the digits still to write.\<close>

fun make_int_loop :: "char list \<Rightarrow> nat \<Rightarrow> int \<Rightarrow> nat \<Rightarrow> char list option" where
  "make_int_loop buf p val 0 = Some buf"
| "make_int_loop buf p val (Suc k) =
     (let d = val smod 10; val = val sdiv 10; p = p - 1
      in if p < length buf then make_int_loop (buf[p := digit_char d]) p val k else None)"

definition make_int :: "char list \<Rightarrow> nat \<Rightarrow> int \<Rightarrow> nat \<Rightarrow> char list option" where
  "make_int buf at val digits = make_int_loop buf (at + digits) val digits"

definition put_char :: "char list \<Rightarrow> nat \<Rightarrow> char \<Rightarrow> char list option" where
  "put_char buf i c = (if i < length buf then Some (buf[i := c]) else None)"

section \<open>The time stamp\<close>

definition TIME_BUF_SIZE :: nat where
  "TIME_BUF_SIZE = 24"

record tm =
  tm_year :: int
  tm_mon :: int
  tm_mday :: int
  tm_hour :: int
  tm_min :: int
  tm_sec :: int

definition current_time :: "tm \<Rightarrow> int \<Rightarrow> char list \<Rightarrow> char list option" where
  "current_time t tv_usec buf = do {
     buf \<leftarrow> make_int buf 0 (tm_year t + 1900) 4;
     buf \<leftarrow> put_char buf 4 (CHR ''-'');
     buf \<leftarrow> make_int buf 5 (tm_mon t + 1) 2;
     buf \<leftarrow> put_char buf 7 (CHR ''-'');
     buf \<leftarrow> make_int buf 8 (tm_mday t) 2;
     buf \<leftarrow> put_char buf 10 (CHR '' '');
     buf \<leftarrow> make_int buf 11 (tm_hour t) 2;
     buf \<leftarrow> put_char buf 13 (CHR '':'');
     buf \<leftarrow> make_int buf 14 (tm_min t) 2;
     buf \<leftarrow> put_char buf 16 (CHR '':'');
     buf \<leftarrow> make_int buf 17 (tm_sec t) 2;
     buf \<leftarrow> put_char buf 19 (CHR ''.'');
     buf \<leftarrow> make_int buf 20 (tv_usec sdiv 1000) 3;
     put_char buf 23 (CHR 0x00)
   }"

section \<open>One log line\<close>

fun show_nat :: "nat \<Rightarrow> string" where
  "show_nat n = (if n < 10 then [digit_char (int n)] else show_nat (n div 10) @ [digit_char (int (n mod 10))])"

declare show_nat.simps [simp del]

text \<open>A C string in a buffer ends at the first NUL.\<close>

definition c_str :: "char list \<Rightarrow> string" where
  "c_str buf = takeWhile (\<lambda>c. c \<noteq> CHR 0x00) buf"

definition LOG_BUF_SIZE :: nat where
  "LOG_BUF_SIZE = 4096"

text \<open>
  \<open>offset += snprintf(log_buf + offset, sizeof(log_buf) - offset, ...)\<close> for the text \<open>s\<close> the
  format produces: the size is computed in \<open>size_t\<close>, at most \<open>size - 1\<close> characters and a NUL
  are written, and the length of the whole text is returned as an \<open>int\<close>. A length that is no
  \<open>int\<close> is an error, for which \<open>vsnprintf\<close> returns -1 (the cut text is in the buffer all the
  same, as the GNU library leaves it); the addition converts the result to \<open>size_t\<close>.
\<close>

definition snprintf_ret :: "string \<Rightarrow> i32" where
  "snprintf_ret s = (if length s < 2 ^ 31 then of_nat (length s) else - 1)"

definition snprintf_at :: "char list \<times> u64 \<Rightarrow> string \<Rightarrow> (char list \<times> u64) option" where
  "snprintf_at = (\<lambda>(buf, offset) s.
     let size = of_nat LOG_BUF_SIZE - offset;
         written = (if size = 0 then [] else take (unat size - 1) s @ [CHR 0x00]);
         at = unat offset
     in if at + length written \<le> length buf \<or> written = []
        then Some (take at buf @ written @ drop (at + length written) buf, offset + scast (snprintf_ret s))
        else None)"

text \<open>\<open>fprintf(fp_s, "%s", ...)\<close>, undefined for a null stream.\<close>

definition fprint_s :: "string \<Rightarrow> log_state \<Rightarrow> log_state option" where
  "fprint_s s st =
     (case fp_s st of
        None \<Rightarrow> None
      | Some f \<Rightarrow> Some (st\<lparr>written := (written st)(f := written st f @ s)\<rparr>))"

text \<open>\<open>Log::log\<close>: \<open>msg\<close> is the text that \<open>fmt\<close> and its arguments produce.\<close>

definition log_log :: "tm \<Rightarrow> int \<Rightarrow> Level \<Rightarrow> nat \<Rightarrow> string \<Rightarrow> string \<Rightarrow> log_state \<Rightarrow> log_state option" where
  "log_log t tv_usec level line file msg st =
     (if level > log_level st then Some st
      else do {
        time_buf \<leftarrow> current_time t tv_usec (replicate TIME_BUF_SIZE (CHR 0x00));
        b \<leftarrow> snprintf_at (replicate LOG_BUF_SIZE (CHR 0x00), 0) (level_str level @ '' '');
        b \<leftarrow> snprintf_at b (''['' @ file @ '':'' @ show_nat line @ ''] '');
        b \<leftarrow> snprintf_at b (c_str time_buf @ '' | '');
        b \<leftarrow> snprintf_at b msg;
        b \<leftarrow> snprintf_at b [CHR 0x0A];
        fprint_s (c_str (fst b)) st
      })"

section \<open>Writing into a buffer\<close>

text \<open>Every in-range store of the printers is a \<open>buf_write\<close>, and consecutive ones merge.\<close>

definition buf_write :: "char list \<Rightarrow> nat \<Rightarrow> string \<Rightarrow> char list" where
  "buf_write buf at s = take at buf @ s @ drop (at + length s) buf"

named_theorems write_rules \<open>buffer writes that stay in range\<close>

lemma length_write [simp]: "at + length s \<le> length buf \<Longrightarrow> length (buf_write buf at s) = length buf"
  by (simp add: buf_write_def)

lemma write_write [write_rules]:
  "b = at + length s \<Longrightarrow> b + length s' \<le> length buf \<Longrightarrow> buf_write (buf_write buf at s) b s' = buf_write buf at (s @ s')"
  by (simp add: buf_write_def add.commute add.left_commute)

lemma write_whole: "length s = length buf \<Longrightarrow> buf_write buf 0 s = s"
  by (simp add: buf_write_def)

lemma put_char_write [write_rules]: "i < length buf \<Longrightarrow> put_char buf i c = Some (buf_write buf i [c])"
  by (simp add: put_char_def buf_write_def upd_conv_take_nth_drop)

text \<open>The digits \<open>make_int\<close> produces: fixed width, most significant first.\<close>

primrec digits :: "nat \<Rightarrow> int \<Rightarrow> string" where
  "digits 0 v = []"
| "digits (Suc k) v = digits k (v div 10) @ [digit_char (v mod 10)]"

lemma length_digits [simp]: "length (digits k v) = k"
  by (induction k arbitrary: v) simp_all

lemma make_int_loop_write:
  assumes "0 \<le> val" and "at + k \<le> length buf"
  shows "make_int_loop buf (at + k) val k = Some (buf_write buf at (digits k val))"
  using assms
proof (induction k arbitrary: buf val)
  case 0
  then show ?case by (simp add: buf_write_def)
next
  case (Suc k)
  have m: "val smod 10 = val mod 10" "val sdiv 10 = val div 10"
    using Suc.prems(1) by (simp_all add: sdiv_nonneg)
  have u: "buf[at + k := c] = buf_write buf (at + k) [c]" for c
    using Suc.prems(2) by (simp add: buf_write_def upd_conv_take_nth_drop)
  have "make_int_loop buf (at + Suc k) val (Suc k) =
      make_int_loop (buf_write buf (at + k) [digit_char (val mod 10)]) (at + k) (val div 10) k"
    using Suc.prems(2) by (simp add: m u Let_def)
  also have "\<dots> = Some (buf_write (buf_write buf (at + k) [digit_char (val mod 10)]) at (digits k (val div 10)))"
    using Suc.prems by (intro Suc.IH) simp_all
  also have "buf_write (buf_write buf (at + k) [digit_char (val mod 10)]) at (digits k (val div 10)) =
      buf_write buf at (digits (Suc k) val)"
    using Suc.prems(2) by (simp add: buf_write_def)
  finally show ?case .
qed

lemma make_int_write [write_rules]:
  "0 \<le> val \<Longrightarrow> at + k \<le> length buf \<Longrightarrow> make_int buf at val k = Some (buf_write buf at (digits k val))"
  by (simp add: make_int_def make_int_loop_write)

text \<open>Reading the digits back.\<close>

definition char_digit :: "char \<Rightarrow> int" where
  "char_digit c = of_char c - 48"

definition read_digits :: "string \<Rightarrow> int" where
  "read_digits s = foldl (\<lambda>n c. 10 * n + char_digit c) 0 s"

lemma digit_char_nonzero: "0 \<le> d \<Longrightarrow> d < 10 \<Longrightarrow> digit_char d \<noteq> CHR 0x00"
proof
  assume "0 \<le> d" "d < 10" "digit_char d = CHR 0x00"
  then have "(of_char (digit_char d) :: int) = 0" by simp
  with \<open>0 \<le> d\<close> \<open>d < 10\<close> show False by (simp add: digit_char_def)
qed

lemma char_digit_char: "0 \<le> d \<Longrightarrow> d < 10 \<Longrightarrow> char_digit (digit_char d) = d"
  by (simp add: char_digit_def digit_char_def)

lemma read_digits_digits: "0 \<le> v \<Longrightarrow> read_digits (digits k v) = v mod 10 ^ k"
proof (induction k arbitrary: v)
  case 0
  then show ?case by (simp add: read_digits_def)
next
  case (Suc k)
  have "read_digits (digits (Suc k) v) = 10 * read_digits (digits k (v div 10)) + v mod 10"
    by (simp add: read_digits_def char_digit_char)
  also have "\<dots> = 10 * (v div 10 mod 10 ^ k) + v mod 10"
    using Suc by simp
  also have "\<dots> = v mod 10 ^ Suc k"
    by (simp add: zmod_zmult2_eq)
  finally show ?case .
qed

section \<open>The time stamp is exact\<close>

definition tm_ok :: "tm \<Rightarrow> int \<Rightarrow> bool" where
  "tm_ok t usec \<longleftrightarrow> 0 \<le> tm_year t + 1900 \<and> 0 \<le> tm_mon t \<and> 0 \<le> tm_mday t \<and> 0 \<le> tm_hour t \<and>
     0 \<le> tm_min t \<and> 0 \<le> tm_sec t \<and> 0 \<le> usec"

definition time_text :: "tm \<Rightarrow> int \<Rightarrow> string" where
  "time_text t usec =
     digits 4 (tm_year t + 1900) @ ''-'' @ digits 2 (tm_mon t + 1) @ ''-'' @ digits 2 (tm_mday t) @ '' '' @
     digits 2 (tm_hour t) @ '':'' @ digits 2 (tm_min t) @ '':'' @ digits 2 (tm_sec t) @ ''.'' @
     digits 3 (usec div 1000)"

lemma length_time_text [simp]: "length (time_text t usec) = 23"
  by (simp add: time_text_def)

lemma digits_no_nul: "CHR 0x00 \<notin> set (digits k v)"
  by (induction k arbitrary: v) (simp_all add: digit_char_nonzero [symmetric])

lemma time_text_no_nul: "CHR 0x00 \<notin> set (time_text t usec)"
  by (simp add: time_text_def digits_no_nul)

lemma current_time_write:
  assumes "tm_ok t usec" and "length buf = TIME_BUF_SIZE"
  shows "current_time t usec buf = Some (time_text t usec @ [CHR 0x00])"
proof -
  have s: "usec sdiv 1000 = usec div 1000" "0 \<le> usec div 1000"
    using assms(1) by (simp_all add: tm_ok_def sdiv_nonneg pos_imp_zdiv_nonneg_iff)
  have "current_time t usec buf = Some (buf_write buf 0 (time_text t usec @ [CHR 0x00]))"
    using assms s by (simp add: current_time_def tm_ok_def TIME_BUF_SIZE_def write_rules time_text_def)
  then show ?thesis
    using assms(2) by (simp add: write_whole TIME_BUF_SIZE_def)
qed

lemma c_str_append_nul: "CHR 0x00 \<notin> set s \<Longrightarrow> c_str (s @ CHR 0x00 # r) = s"
  by (induction s) (auto simp: c_str_def)

section \<open>The line buffer\<close>

text \<open>The buffer holds the text \<open>w\<close>, terminated, and the offset is its length.\<close>

definition holds :: "char list \<times> u64 \<Rightarrow> string \<Rightarrow> bool" where
  "holds b w \<longleftrightarrow> length (fst b) = LOG_BUF_SIZE \<and> snd b = of_nat (length w) \<and> length w < LOG_BUF_SIZE \<and>
     (\<exists>r. fst b = w @ CHR 0x00 # r)"

lemma holds_initial: "holds (replicate LOG_BUF_SIZE (CHR 0x00), 0) []"
  by (auto simp: holds_def LOG_BUF_SIZE_def intro!: exI [of _ "replicate 4095 (CHR 0x00)"])
    (simp add: replicate_Suc [symmetric] del: replicate_Suc)

lemma holds_c_str: "holds b w \<Longrightarrow> CHR 0x00 \<notin> set w \<Longrightarrow> c_str (fst b) = w"
  by (auto simp: holds_def c_str_append_nul)

lemma unat_size_left: "n < LOG_BUF_SIZE \<Longrightarrow> unat (of_nat LOG_BUF_SIZE - of_nat n :: u64) = LOG_BUF_SIZE - n"
  by (subst unat_sub) (simp_all add: LOG_BUF_SIZE_def word_le_nat_alt unat_of_nat)

lemma snprintf_ret_int: "length s < 2 ^ 31 \<Longrightarrow> (scast (snprintf_ret s) :: u64) = of_nat (length s)"
  by (simp add: snprintf_ret_def signed_of_nat signed_take_bit_int_eq_self)

lemma snprintf_ret_error: "2 ^ 31 \<le> length s \<Longrightarrow> (scast (snprintf_ret s) :: u64) = - 1"
  by (simp add: snprintf_ret_def)

lemma snprintf_fits:
  assumes "holds b w" and "length w + length s < LOG_BUF_SIZE"
  shows "\<exists>b'. snprintf_at b s = Some b' \<and> holds b' (w @ s)"
proof -
  obtain buf r where b: "b = (buf, of_nat (length w))" "buf = w @ CHR 0x00 # r" "length buf = LOG_BUF_SIZE"
    using assms(1) by (cases b) (auto simp: holds_def)
  have u: "unat (of_nat (length w) :: u64) = length w"
    using assms(2) by (simp add: LOG_BUF_SIZE_def unat_of_nat)
  have z: "unat (of_nat LOG_BUF_SIZE - of_nat (length w) :: u64) = LOG_BUF_SIZE - length w"
    by (rule unat_size_left) (use assms(2) in simp)
  then have nz: "of_nat LOG_BUF_SIZE - of_nat (length w) \<noteq> (0 :: u64)"
    using assms(2) by (metis add_lessD1 unat_0 zero_less_diff less_numeral_extra(3))
  have tk: "take (LOG_BUF_SIZE - length w - 1) s = s"
    using assms(2) by simp
  have ret: "(scast (snprintf_ret s) :: u64) = of_nat (length s)"
    using assms(2) by (intro snprintf_ret_int) (simp add: LOG_BUF_SIZE_def)
  have "snprintf_at b s =
      Some (w @ s @ CHR 0x00 # drop (length w + length s + 1) buf, of_nat (length w + length s))"
    using assms(2) b(3) nz by (simp add: snprintf_at_def b(1) u z tk ret Let_def) (simp add: b(2))
  then show ?thesis
    using assms(2) b(3) by (simp add: holds_def)
qed

text \<open>A text that does not fit is cut, and the offset moves to or past the end of the buffer,
  unless the length of the text is no \<open>int\<close>.\<close>

lemma snprintf_cut:
  assumes "holds b w" and "LOG_BUF_SIZE \<le> length w + length s"
  shows "snprintf_at b s =
    Some (take (LOG_BUF_SIZE - 1) (w @ s) @ [CHR 0x00], of_nat (length w) + scast (snprintf_ret s))"
proof -
  obtain buf r where b: "b = (buf, of_nat (length w))" "buf = w @ CHR 0x00 # r" "length buf = LOG_BUF_SIZE"
    and w: "length w < LOG_BUF_SIZE"
    using assms(1) by (cases b) (auto simp: holds_def)
  have u: "unat (of_nat (length w) :: u64) = length w"
    using w by (simp add: LOG_BUF_SIZE_def unat_of_nat)
  have z: "unat (of_nat LOG_BUF_SIZE - of_nat (length w) :: u64) = LOG_BUF_SIZE - length w"
    by (rule unat_size_left) (use w in simp)
  then have nz: "of_nat LOG_BUF_SIZE - of_nat (length w) \<noteq> (0 :: u64)"
    using w by (metis unat_0 zero_less_diff less_numeral_extra(3))
  have l: "length (take (LOG_BUF_SIZE - length w - 1) s) = LOG_BUF_SIZE - length w - 1"
    using assms(2) by simp
  show ?thesis
    using w b(3) nz l by (simp add: snprintf_at_def b(1) u z Let_def) (simp add: b(2))
qed

text \<open>After such a text the newline lands on the last character in front of it.\<close>

lemma snprintf_after_error:
  assumes "length buf = LOG_BUF_SIZE" and "0 < n" and "n < LOG_BUF_SIZE"
  shows "snprintf_at (buf, of_nat n + - 1) [c] \<noteq> None"
proof -
  obtain k where k: "n = Suc k" using assms(2) by (cases n) simp_all
  have u: "unat (of_nat k :: u64) = k" "unat (of_nat LOG_BUF_SIZE - of_nat k :: u64) = LOG_BUF_SIZE - k"
    using assms(3) unat_size_left [of k] by (simp_all add: k LOG_BUF_SIZE_def unat_of_nat)
  have "snprintf_at (buf, of_nat k) [c] \<noteq> None"
    using assms(1,3) u by (simp add: snprintf_at_def k Let_def)
  then show ?thesis by (simp add: k)
qed

text \<open>The final newline after a text of \<open>n\<close> characters that reached the end of the buffer.\<close>

lemma snprintf_past_end:
  assumes "length buf = LOG_BUF_SIZE" and "LOG_BUF_SIZE \<le> n" and "n < 2 ^ 63"
  shows "snprintf_at (buf, of_nat n) [c] =
    (if n = LOG_BUF_SIZE then Some (buf, of_nat n + 1) else None)"
proof (cases "n = LOG_BUF_SIZE")
  case True
  then show ?thesis by (simp add: snprintf_at_def snprintf_ret_def Let_def)
next
  case False
  have u: "unat (of_nat n :: u64) = n"
    using assms(3) by (simp add: unat_of_nat)
  have "unat (of_nat LOG_BUF_SIZE - of_nat n :: u64) = 2 ^ 64 + LOG_BUF_SIZE - n"
    using assms False by (simp add: unat_sub_if_size word_size u LOG_BUF_SIZE_def unat_of_nat word_le_nat_alt)
  then have z: "2 \<le> unat (of_nat LOG_BUF_SIZE - of_nat n :: u64)"
    using assms(3) by simp
  then have "of_nat LOG_BUF_SIZE - of_nat n \<noteq> (0 :: u64)" by auto
  with z False assms u show ?thesis
    by (cases "unat (of_nat LOG_BUF_SIZE - of_nat n :: u64) - 1") (simp_all add: snprintf_at_def Let_def)
qed

definition log_prefix :: "tm \<Rightarrow> int \<Rightarrow> Level \<Rightarrow> nat \<Rightarrow> string \<Rightarrow> string" where
  "log_prefix t usec level line file =
     level_str level @ '' '' @ ''['' @ file @ '':'' @ show_nat line @ ''] '' @ time_text t usec @ '' | ''"

lemma show_nat_no_nul: "CHR 0x00 \<notin> set (show_nat n)"
proof (induction n rule: show_nat.induct)
  case (1 n)
  then show ?case
    by (subst show_nat.simps) (simp add: digit_char_nonzero [symmetric])
qed

lemma log_prefix_no_nul: "CHR 0x00 \<notin> set file \<Longrightarrow> CHR 0x00 \<notin> set (log_prefix t usec level line file)"
  by (cases level) (simp_all add: log_prefix_def time_text_no_nul show_nat_no_nul)

text \<open>The fixed part of a line always arrives in the buffer when it fits.\<close>

lemma log_log_prefix:
  assumes "tm_ok t usec" and "level \<le> log_level st"
    and "length (log_prefix t usec level line file) < LOG_BUF_SIZE"
  obtains b where "holds b (log_prefix t usec level line file)"
    and "log_log t usec level line file msg st = do {
        b \<leftarrow> snprintf_at b msg;
        b \<leftarrow> snprintf_at b [CHR 0x0A];
        fprint_s (c_str (fst b)) st
      }"
proof -
  let ?s1 = "level_str level @ '' ''" and ?s2 = "''['' @ file @ '':'' @ show_nat line @ ''] ''"
    and ?s3 = "time_text t usec @ '' | ''"
  have l: "length (?s1 @ ?s2 @ ?s3) < LOG_BUF_SIZE"
    using assms(3) by (simp add: log_prefix_def)
  have tb: "current_time t usec (replicate TIME_BUF_SIZE (CHR 0x00)) = Some (time_text t usec @ [CHR 0x00])"
    by (rule current_time_write) (simp_all add: assms(1))
  have c: "c_str (time_text t usec @ [CHR 0x00]) = time_text t usec"
    by (rule c_str_append_nul) (rule time_text_no_nul)
  obtain b1 where b1: "snprintf_at (replicate LOG_BUF_SIZE (CHR 0x00), 0) ?s1 = Some b1" "holds b1 ?s1"
    using snprintf_fits [OF holds_initial, of ?s1] l by auto
  obtain b2 where b2: "snprintf_at b1 ?s2 = Some b2" "holds b2 (?s1 @ ?s2)"
    using snprintf_fits [OF b1(2), of ?s2] l by auto
  obtain b3 where b3: "snprintf_at b2 ?s3 = Some b3" "holds b3 ((?s1 @ ?s2) @ ?s3)"
    using snprintf_fits [OF b2(2), of ?s3] l by auto
  show ?thesis
  proof (rule that)
    show "holds b3 (log_prefix t usec level line file)"
      using b3(2) by (simp add: log_prefix_def)
    show "log_log t usec level line file msg st = do {
        b \<leftarrow> snprintf_at b3 msg;
        b \<leftarrow> snprintf_at b [CHR 0x0A];
        fprint_s (c_str (fst b)) st
      }"
      using leD [OF assms(2)] b1(1) b2(1) b3(1) by (simp add: log_log_def tb c)
  qed
qed

text \<open>When the newline falls outside the buffer.\<close>

lemma log_log_none_iff:
  assumes "tm_ok t usec" and "level \<le> log_level st"
    and "length (log_prefix t usec level line file) < LOG_BUF_SIZE" and "fp_s st \<noteq> None"
  shows "log_log t usec level line file msg st = None \<longleftrightarrow>
    LOG_BUF_SIZE < length (log_prefix t usec level line file @ msg) \<and> length msg < 2 ^ 31"
proof -
  let ?p = "log_prefix t usec level line file"
  obtain b where b: "holds b ?p" "log_log t usec level line file msg st = do {
        b \<leftarrow> snprintf_at b msg;
        b \<leftarrow> snprintf_at b [CHR 0x0A];
        fprint_s (c_str (fst b)) st
      }"
    by (rule log_log_prefix [OF assms(1-3)])
  show ?thesis
  proof (cases "length (?p @ msg) < LOG_BUF_SIZE")
    case True
    then obtain b1 where b1: "snprintf_at b msg = Some b1" "holds b1 (?p @ msg)"
      using snprintf_fits [OF b(1), of msg] by auto
    have "\<exists>b2. snprintf_at b1 [CHR 0x0A] = Some b2"
      using snprintf_fits [OF b1(2), of "[CHR 0x0A]"] snprintf_cut [OF b1(2), of "[CHR 0x0A]"]
      by (cases "length (?p @ msg) + 1 < LOG_BUF_SIZE") auto
    with True b(2) b1(1) assms(4) show ?thesis by (auto simp: fprint_s_def)
  next
    case False
    let ?b = "take (LOG_BUF_SIZE - 1) (?p @ msg) @ [CHR 0x00]"
    have l: "length ?b = LOG_BUF_SIZE" using False by (simp add: LOG_BUF_SIZE_def)
    have cut: "snprintf_at b msg = Some (?b, of_nat (length ?p) + scast (snprintf_ret msg))"
      using False snprintf_cut [OF b(1), of msg] by simp
    show ?thesis
    proof (cases "length msg < 2 ^ 31")
      case True
      then have "snprintf_at b msg = Some (?b, of_nat (length (?p @ msg)))"
        by (simp add: cut snprintf_ret_int)
      moreover have "snprintf_at (?b, of_nat (length (?p @ msg))) [CHR 0x0A] =
          (if length (?p @ msg) = LOG_BUF_SIZE then Some (?b, of_nat (length (?p @ msg)) + 1) else None)"
        using False True assms(3) by (intro snprintf_past_end l) (simp_all add: LOG_BUF_SIZE_def)
      ultimately show ?thesis
        using False True b(2) assms(4) by (auto simp: fprint_s_def)
    next
      case big: False
      have "0 < length ?p" by (simp add: log_prefix_def)
      then obtain b2 where "snprintf_at (?b, of_nat (length ?p) + - 1) [CHR 0x0A] = Some b2"
        using snprintf_after_error [OF l _ assms(3)] by blast
      with big b(2) assms(4) show ?thesis
        by (auto simp: cut snprintf_ret_error fprint_s_def)
    qed
  qed
qed

section \<open>Properties\<close>

text \<open>C38: The time stamp fills its 24 bytes exactly, with the fixed-width fields of the date and
  the time, a terminating NUL and no write outside the buffer.\<close>

theorem current_time_layout:
  assumes "tm_ok t usec" and "length buf = TIME_BUF_SIZE"
  shows "current_time t usec buf = Some (time_text t usec @ [CHR 0x00]) \<and>
    length (time_text t usec @ [CHR 0x00]) = TIME_BUF_SIZE"
  using current_time_write [OF assms] by (simp add: TIME_BUF_SIZE_def)

theorem current_time_layout_witness:
  "current_time \<lparr>tm_year = 125, tm_mon = 8, tm_mday = 3, tm_hour = 4, tm_min = 59, tm_sec = 0\<rparr> 7000
     (replicate 24 (CHR ''x'')) = Some (''2025-09-03 04:59:00.007'' @ [CHR 0x00])"
  using current_time_layout
    [of "\<lparr>tm_year = 125, tm_mon = 8, tm_mday = 3, tm_hour = 4, tm_min = 59, tm_sec = 0\<rparr>" 7000
      "replicate 24 (CHR ''x'')"]
  by (simp add: tm_ok_def TIME_BUF_SIZE_def time_text_def numeral_2_eq_2 numeral_3_eq_3 eval_nat_numeral
      digit_char_def char_of_def)

text \<open>The digits \<open>make_int\<close> stores read back as the value, reduced to the width.\<close>

lemma make_int_roundtrip:
  assumes "0 \<le> val" and "at + k \<le> length buf"
  shows "\<exists>buf'. make_int buf at val k = Some buf' \<and>
     read_digits (take k (drop at buf')) = val mod 10 ^ k \<and>
     take at buf' = take at buf \<and> drop (at + k) buf' = drop (at + k) buf"
  using assms by (auto simp: make_int_write buf_write_def read_digits_digits)

lemma make_int_roundtrip_example:
  "\<exists>buf'. make_int (replicate 6 (CHR ''x'')) 1 2025 4 = Some buf' \<and>
     read_digits (take 4 (drop 1 buf')) = 2025"
  using make_int_roundtrip [of 2025 1 4 "replicate 6 (CHR ''x'')"] by auto

text \<open>C27: A line whose level is enabled and whose text leaves room for the newline reaches the log
  file complete; a line of a higher level leaves the file alone.\<close>

theorem log_log_line:
  assumes "tm_ok t usec" and "CHR 0x00 \<notin> set (file @ msg)"
    and "length (log_prefix t usec level line file @ msg) + 1 < LOG_BUF_SIZE"
  shows "log_log t usec level line file msg st =
    (if level \<le> log_level st
     then fprint_s (log_prefix t usec level line file @ msg @ [CHR 0x0A]) st else Some st)"
proof (cases "level \<le> log_level st")
  case True
  let ?p = "log_prefix t usec level line file"
  have lp: "length ?p < LOG_BUF_SIZE" using assms(3) by simp
  obtain b where b: "holds b ?p" "log_log t usec level line file msg st = do {
        b \<leftarrow> snprintf_at b msg;
        b \<leftarrow> snprintf_at b [CHR 0x0A];
        fprint_s (c_str (fst b)) st
      }"
    by (rule log_log_prefix [OF assms(1) True lp])
  obtain b1 where b1: "snprintf_at b msg = Some b1" "holds b1 (?p @ msg)"
    using snprintf_fits [OF b(1), of msg] assms(3) by auto
  obtain b2 where b2: "snprintf_at b1 [CHR 0x0A] = Some b2" "holds b2 ((?p @ msg) @ [CHR 0x0A])"
    using snprintf_fits [OF b1(2), of "[CHR 0x0A]"] assms(3) by auto
  have "c_str (fst b2) = (?p @ msg) @ [CHR 0x0A]"
    using assms(2) by (intro holds_c_str [OF b2(2)]) (simp add: log_prefix_no_nul)
  with True b(2) b1(1) b2(1) show ?thesis by simp
next
  case False
  then show ?thesis by (auto simp: log_log_def)
qed

theorem log_log_line_witness:
  "let t = \<lparr>tm_year = 125, tm_mon = 8, tm_mday = 3, tm_hour = 4, tm_min = 59, tm_sec = 0\<rparr> in
   log_log t 7000 INFO 87 ''src/packet_filter.cc'' ''hi'' log_initial =
     Some (log_initial\<lparr>written := (\<lambda>_. [])(1 := log_prefix t 7000 INFO 87 ''src/packet_filter.cc'' @ ''hi'' @ [CHR 0x0A])\<rparr>)"
proof -
  have "length (show_nat 87) = 2" by (simp add: show_nat.simps)
  then show ?thesis
    using log_log_line [of "\<lparr>tm_year = 125, tm_mon = 8, tm_mday = 3, tm_hour = 4, tm_min = 59, tm_sec = 0\<rparr>"
        7000 "''src/packet_filter.cc''" "''hi''" INFO 87 log_initial]
    by (simp add: tm_ok_def log_prefix_def LOG_BUF_SIZE_def log_initial_def less_eq_Level_def fprint_s_def Let_def)
qed

text \<open>C28: The line buffer overflows exactly when the text before the newline is longer than the
  buffer and the message has an \<open>int\<close> length: the offset has then passed the end, the remaining
  size wraps around, and the newline is written outside. For a longer message \<open>vsnprintf\<close> fails,
  the offset goes back by one and the newline stays inside.\<close>

theorem log_log_overflow:
  assumes "tm_ok t usec" and "level \<le> log_level st"
    and "length (log_prefix t usec level line file) < LOG_BUF_SIZE" and "fp_s st \<noteq> None"
  shows "log_log t usec level line file msg st = None \<longleftrightarrow>
    LOG_BUF_SIZE < length (log_prefix t usec level line file @ msg) \<and> length msg < 2 ^ 31"
  by (rule log_log_none_iff [OF assms])

theorem log_log_overflow_witness:
  "log_log \<lparr>tm_year = 125, tm_mon = 8, tm_mday = 3, tm_hour = 4, tm_min = 59, tm_sec = 0\<rparr> 7000 INFO 87
     ''src/main.cc'' (replicate 5000 (CHR ''x'')) log_initial = None"
proof -
  have "length (show_nat 87) = 2" by (simp add: show_nat.simps)
  then show ?thesis
    using log_log_overflow
      [of "\<lparr>tm_year = 125, tm_mon = 8, tm_mday = 3, tm_hour = 4, tm_min = 59, tm_sec = 0\<rparr>" 7000 INFO
        log_initial 87 "''src/main.cc''" "replicate 5000 (CHR ''x'')"]
    by (simp add: tm_ok_def log_prefix_def LOG_BUF_SIZE_def log_initial_def less_eq_Level_def)
qed

text \<open>\<open>set_log_file\<close> checks the old stream instead of the new one: a null pointer is accepted,
  and the next enabled line is written to it.\<close>

lemma set_log_file_null:
  assumes "fp_s st \<noteq> None" and "level \<le> log_level st"
  shows "\<exists>st'. set_log_file None st = Some st' \<and> log_log t usec level line file msg st' = None"
proof -
  have n: "fprint_s s (st\<lparr>fp_s := None\<rparr>) = None" for s
    by (simp add: fprint_s_def)
  show ?thesis
    using assms(1) leD [OF assms(2)] by (simp add: set_log_file_def log_log_def n split: option.split)
qed

lemma set_log_file_null_example:
  "log_log \<lparr>tm_year = 125, tm_mon = 8, tm_mday = 3, tm_hour = 4, tm_min = 59, tm_sec = 0\<rparr> 7000 INFO 87
     ''src/main.cc'' ''hi'' (the (set_log_file None log_initial)) = None"
proof -
  have "fp_s log_initial \<noteq> None" "INFO \<le> log_level log_initial"
    by (simp_all add: log_initial_def less_eq_Level_def)
  from set_log_file_null [OF this] show ?thesis by (metis option.sel)
qed

end
