(* ===== verification/Sw_Effects.thy ===== *)
theory Sw_Effects
  imports Logging
begin

text \<open>
  The effects of the server's code: a computation reads and updates a state and either returns
  a value or ends in a fault. \<open>log_fatal\<close> and a failed \<open>log_assert\<close> abort, an
  exception no one catches terminates, an access out of the bounds of a buffer, undefined
  behaviour, is a fault of its own, and so is a call that never returns. The state keeps the device the process talks to and the
  lines handed to the logger; what the logger does with a line is the theory \<open>Logging\<close>.
\<close>

section \<open>Computations\<close>

datatype cpp_exception = InvalidArgument | OutOfRange

datatype fault = Abort | Uncaught cpp_exception | OutOfBounds | Hang

type_synonym ('s, 'a) prog = "'s \<Rightarrow> (fault + 'a) \<times> 's"

definition ret :: "'a \<Rightarrow> ('s, 'a) prog" where
  "ret a = (\<lambda>s. (Inr a, s))"

definition raise :: "fault \<Rightarrow> ('s, 'a) prog" where
  "raise e = (\<lambda>s. (Inl e, s))"

definition bindp :: "('s, 'a) prog \<Rightarrow> ('a \<Rightarrow> ('s, 'b) prog) \<Rightarrow> ('s, 'b) prog" where
  "bindp m f = (\<lambda>s. case m s of (Inl e, s') \<Rightarrow> (Inl e, s') | (Inr a, s') \<Rightarrow> f a s')"

definition thenp :: "('s, 'a) prog \<Rightarrow> ('s, 'b) prog \<Rightarrow> ('s, 'b) prog" where
  "thenp m n = bindp m (\<lambda>_. n)"

definition modifyp :: "('s \<Rightarrow> 's) \<Rightarrow> ('s, unit) prog" where
  "modifyp f = (\<lambda>s. (Inr (), f s))"

primrec for_each :: "('a \<Rightarrow> ('s, unit) prog) \<Rightarrow> 'a list \<Rightarrow> ('s, unit) prog" where
  "for_each f [] = ret ()"
| "for_each f (x # xs) = thenp (f x) (for_each f xs)"

named_theorems prog_simps \<open>running the combinators\<close>

lemma ret_run [prog_simps]: "ret a s = (Inr a, s)"
  by (simp add: ret_def)

lemma raise_run [prog_simps]: "raise e s = (Inl e, s)"
  by (simp add: raise_def)

lemma bindp_run [prog_simps]:
  "m s = (Inl e, s') \<Longrightarrow> bindp m f s = (Inl e, s')"
  "m s = (Inr a, s') \<Longrightarrow> bindp m f s = f a s'"
  by (simp_all add: bindp_def)

lemma thenp_run [prog_simps]:
  "m s = (Inl e, s') \<Longrightarrow> thenp m n s = (Inl e, s')"
  "m s = (Inr a, s') \<Longrightarrow> thenp m n s = n s'"
  by (simp_all add: thenp_def bindp_def)

lemma modifyp_run [prog_simps]: "modifyp f s = (Inr (), f s)"
  by (simp add: modifyp_def)

section \<open>The world of the server\<close>

record 'd world =
  device :: 'd
  log_lines :: "(Level \<times> string) list"

definition log_msg :: "Level \<Rightarrow> string \<Rightarrow> ('d world, unit) prog" where
  "log_msg level msg = modifyp (\<lambda>w. w\<lparr>log_lines := log_lines w @ [(level, msg)]\<rparr>)"

definition log_fatal :: "string \<Rightarrow> ('d world, 'a) prog" where
  "log_fatal msg = thenp (log_msg FATAL msg) (raise Abort)"

definition log_assert :: "bool \<Rightarrow> string \<Rightarrow> ('d world, unit) prog" where
  "log_assert c msg = (if \<not> c then log_fatal msg else ret ())"

lemma log_msg_run [prog_simps]:
  "log_msg level msg w = (Inr (), w\<lparr>log_lines := log_lines w @ [(level, msg)]\<rparr>)"
  by (simp add: log_msg_def prog_simps)

lemma log_fatal_run [prog_simps]:
  "log_fatal msg w = (Inl Abort, w\<lparr>log_lines := log_lines w @ [(FATAL, msg)]\<rparr>)"
  by (simp add: log_fatal_def prog_simps)

lemma log_assert_run [prog_simps]:
  "log_assert c msg w =
     (if c then (Inr (), w) else (Inl Abort, w\<lparr>log_lines := log_lines w @ [(FATAL, msg)]\<rparr>))"
  by (simp add: log_assert_def prog_simps)

text \<open>The same in front of a continuation, without conditions.\<close>

lemma prog_then [prog_simps]:
  "thenp (ret a) n = n"
  "thenp (raise e) n = raise e"
  "thenp (modifyp g) n = (\<lambda>s. n (g s))"
  "bindp (ret a) f = f a"
  "bindp (raise e) f = raise e"
  by (simp_all add: fun_eq_iff thenp_def bindp_def ret_def raise_def modifyp_def)

lemma log_then [prog_simps]:
  "thenp (log_msg level msg) n w = n (w\<lparr>log_lines := log_lines w @ [(level, msg)]\<rparr>)"
  "thenp (log_fatal msg) n w = (Inl Abort, w\<lparr>log_lines := log_lines w @ [(FATAL, msg)]\<rparr>)"
  "thenp (log_assert c msg) n w =
     (if c then n w else (Inl Abort, w\<lparr>log_lines := log_lines w @ [(FATAL, msg)]\<rparr>))"
  by (simp_all add: prog_simps)

section \<open>Computations that leave the device alone\<close>

definition quiet :: "('d world, 'a) prog \<Rightarrow> bool" where
  "quiet m \<longleftrightarrow> (\<forall>w. device (snd (m w)) = device w)"

lemma quiet_ret [intro]: "quiet (ret a)"
  by (simp add: quiet_def prog_simps)

lemma quiet_raise [intro]: "quiet (raise e)"
  by (simp add: quiet_def prog_simps)

lemma quiet_log [intro]: "quiet (log_msg l s)" "quiet (log_fatal s)" "quiet (log_assert c s)"
  by (simp_all add: quiet_def prog_simps)

lemma quiet_bindp [intro]: "quiet m \<Longrightarrow> (\<And>a. quiet (f a)) \<Longrightarrow> quiet (bindp m f)"
  unfolding quiet_def bindp_def
  by (auto split: prod.splits sum.splits) (metis snd_conv)+

lemma quiet_thenp [intro]: "quiet m \<Longrightarrow> quiet n \<Longrightarrow> quiet (thenp m n)"
  unfolding thenp_def by (rule quiet_bindp)

text \<open>A computation that either fails without touching the device or goes on to \<open>n\<close>.\<close>

lemma quiet_bindp_fault:
  assumes "quiet m" and "\<And>a w e w'. f a w = (Inl e, w') \<Longrightarrow> device w' = device w"
    and "bindp m f w = (Inl e, w')"
  shows "device w' = device w"
proof (cases "m w")
  case (Pair r w1)
  with assms(1) have "device w1 = device w" unfolding quiet_def by (metis snd_conv)
  with Pair assms(2,3) show ?thesis by (cases r) (auto simp: bindp_def)
qed

lemma for_each_append:
  "for_each f (xs @ ys) s = thenp (for_each f xs) (for_each f ys) s"
  by (induction xs arbitrary: s)
    (auto simp: prog_simps thenp_def bindp_def split: prod.splits sum.splits)

end
