(* ===== verification/Mmio.thy ===== *)
theory Mmio
  imports Sw_Effects
begin

text \<open>
  The class \<open>MMIO\<close> (\<open>packet_filter.h\<close>, \<open>packet_filter.cc\<close>): its constructor, the two register
  primitives and the templates \<open>write\<close> and \<open>read\<close>, which split a 64-bit value into two register
  accesses. The QDMA driver and the PCIe device behind it are not part of the repository: they
  are a record of functions, an argument of every operation.
\<close>

unbundle bit_operations_syntax

record mmio =
  base_addr :: u32
  port_id :: u32
  bar_id :: u32

text \<open>
  The driver: whether a port is a QDMA device, the number of ports, the result and the user BAR
  of the BAR query, the error text, and the register accesses of a port and a BAR.
\<close>

record 'd qdma =
  get_device :: "u32 \<Rightarrow> bool"
  dev_count_avail :: u16
  get_bar_details :: "u32 \<Rightarrow> int \<times> u32"
  strerror :: "int \<Rightarrow> string"
  pci_write_reg :: "u32 \<Rightarrow> u32 \<Rightarrow> u32 \<Rightarrow> u32 \<Rightarrow> 'd \<Rightarrow> 'd"
  pci_read_reg :: "u32 \<Rightarrow> u32 \<Rightarrow> u32 \<Rightarrow> 'd \<Rightarrow> u32 \<times> 'd"

section \<open>Operations\<close>

text \<open>The constructor; \<open>m\<close> is the storage of the object, whose \<open>base_addr\<close> it leaves as it is.\<close>

definition mmio_new :: "'d qdma \<Rightarrow> u32 \<Rightarrow> mmio \<Rightarrow> ('d world, mmio) prog" where
  "mmio_new q port m =
     thenp (if \<not> get_device q port
            then log_fatal (''Port '' @ show_nat (unat port) @ '' is not a QDMA device'') else ret ())
     (let port_num = (ucast (dev_count_avail q) :: u8) in
      thenp (log_assert (port < ucast port_num) (''Invalid port_id: '' @ show_nat (unat port)))
      (let (r, user_bar) = get_bar_details q port in
       thenp (if r \<noteq> 0
              then log_fatal (''Failed to get BAR details for port '' @ show_nat (unat port) @ '': ''
                @ strerror q (- r)) else ret ())
       (ret (m\<lparr>port_id := port, bar_id := user_bar\<rparr>))))"

definition set_base_addr :: "mmio \<Rightarrow> u32 \<Rightarrow> mmio" where
  "set_base_addr m addr = m\<lparr>base_addr := addr\<rparr>"

definition mmio_reg_write :: "'d qdma \<Rightarrow> mmio \<Rightarrow> u32 \<Rightarrow> u32 \<Rightarrow> ('d world, unit) prog" where
  "mmio_reg_write q m offset val =
     thenp (log_assert (base_addr m \<noteq> 0) ''Base address is not set'')
     (modifyp (\<lambda>w. w\<lparr>device := pci_write_reg q (port_id m) (bar_id m) (base_addr m + offset) val (device w)\<rparr>))"

definition mmio_reg_read :: "'d qdma \<Rightarrow> mmio \<Rightarrow> u32 \<Rightarrow> ('d world, u32) prog" where
  "mmio_reg_read q m offset =
     thenp (log_assert (base_addr m \<noteq> 0) ''Base address is not set'')
     (\<lambda>w. let (v, d) = pci_read_reg q (port_id m) (bar_id m) (base_addr m + offset) (device w)
          in (Inr v, w\<lparr>device := d\<rparr>))"

text \<open>The templates: the type \<open>T\<close> is the word length, and \<open>sizeof(T) <= 4\<close> a test of it.\<close>

definition mmio_write :: "'d qdma \<Rightarrow> mmio \<Rightarrow> u32 \<Rightarrow> 'a::len word \<Rightarrow> ('d world, unit) prog" where
  "mmio_write q m offset val =
     (if LENGTH('a) \<le> 32 then mmio_reg_write q m offset (ucast val)
      else thenp (mmio_reg_write q m offset (ucast (val AND 0xFFFFFFFF)))
             (mmio_reg_write q m (offset + 4) (ucast (drop_bit 32 val AND 0xFFFFFFFF))))"

definition mmio_read :: "'d qdma \<Rightarrow> mmio \<Rightarrow> u32 \<Rightarrow> ('d world, 'a::len word) prog" where
  "mmio_read q m offset =
     (if LENGTH('a) \<le> 32 then bindp (mmio_reg_read q m offset) (\<lambda>v. ret (ucast v))
      else bindp (mmio_reg_read q m offset) (\<lambda>low.
           bindp (mmio_reg_read q m (offset + 4)) (\<lambda>high.
           ret (ucast (push_bit 32 (ucast high :: u64) OR ucast low)))))"

section \<open>Running them\<close>

text \<open>What one register access does to the device.\<close>

abbreviation reg_write :: "'d qdma \<Rightarrow> mmio \<Rightarrow> u32 \<Rightarrow> u32 \<Rightarrow> 'd \<Rightarrow> 'd" where
  "reg_write q m offset val d \<equiv> pci_write_reg q (port_id m) (bar_id m) (base_addr m + offset) val d"

abbreviation reg_read :: "'d qdma \<Rightarrow> mmio \<Rightarrow> u32 \<Rightarrow> 'd \<Rightarrow> u32 \<times> 'd" where
  "reg_read q m offset d \<equiv> pci_read_reg q (port_id m) (bar_id m) (base_addr m + offset) d"

lemma mmio_reg_write_run [prog_simps]:
  "base_addr m \<noteq> 0 \<Longrightarrow>
     mmio_reg_write q m offset val w = (Inr (), w\<lparr>device := reg_write q m offset val (device w)\<rparr>)"
  by (simp add: mmio_reg_write_def prog_simps)

lemma mmio_reg_read_run [prog_simps]:
  "base_addr m \<noteq> 0 \<Longrightarrow> reg_read q m offset (device w) = (v, d) \<Longrightarrow>
     mmio_reg_read q m offset w = (Inr v, w\<lparr>device := d\<rparr>)"
  by (simp add: mmio_reg_read_def prog_simps)

lemma mmio_write_small [prog_simps]:
  fixes val :: "'a::len word"
  assumes "base_addr m \<noteq> 0" and "LENGTH('a) \<le> 32"
  shows "mmio_write q m offset val w =
    (Inr (), w\<lparr>device := reg_write q m offset (ucast val) (device w)\<rparr>)"
  using assms by (simp add: mmio_write_def prog_simps)

lemma mmio_read64_run:
  assumes "base_addr m \<noteq> 0" and "reg_read q m offset (device w) = (lo, d)"
    and "reg_read q m (offset + 4) d = (hi, d')"
  shows "(mmio_read q m offset :: ('d world, u64) prog) w =
    (Inr (push_bit 32 (ucast hi) OR ucast lo), w\<lparr>device := d'\<rparr>)"
  using assms by (simp add: mmio_read_def prog_simps)

text \<open>A 64-bit value and its two halves.\<close>

definition low32 :: "u64 \<Rightarrow> u32" where
  "low32 x = ucast x"

definition high32 :: "u64 \<Rightarrow> u32" where
  "high32 x = ucast (drop_bit 32 x)"

lemma join_halves [simp]: "push_bit 32 (ucast (high32 x)) OR ucast (low32 x) = x"
  by (rule bit_word_eqI) (auto simp: low32_def high32_def bit_simps)

lemma unat_high32: "unat (high32 y) = take_bit 32 (unat y div 2 ^ 32)"
  by (simp only: high32_def unsigned_ucast_eq unsigned_drop_bit_eq drop_bit_eq_div)
    (simp add: unat_div)

lemma unat_all_ones: "unat (- 1 :: u32) = 2 ^ 32 - 1"
  by (simp add: unsigned_minus_1_eq_mask mask_eq_exp_minus_1)

lemma carry_div:
  fixes n b :: nat
  assumes "0 < b"
  shows "n mod b = b - 1 \<Longrightarrow> (n + 1) div b = (n + b) div b"
    and "n mod b \<noteq> b - 1 \<Longrightarrow> (n + 1) div b = n div b"
  using assms by (simp_all only: Suc_eq_plus1 [symmetric] div_Suc mod_Suc div_add_self2) auto

lemma unat_low32: "unat (low32 y) = unat y mod 2 ^ 32"
  by (simp add: low32_def unsigned_ucast_eq take_bit_eq_mod)

lemma high32_plus: "unat (high32 (y + z)) = take_bit 32 ((unat y + unat z) div 2 ^ 32)"
proof -
  have "unat (y + z) div 2 ^ 32 = drop_bit 32 (take_bit 64 (unat y + unat z))"
    by (simp add: unat_word_ariths take_bit_eq_mod drop_bit_eq_div)
  then show ?thesis
    by (simp add: unat_high32 drop_bit_take_bit) (simp add: drop_bit_eq_div)
qed

text \<open>Counting up by one changes the high half only when the low half is all ones.\<close>

lemma high32_Suc:
  "high32 (x + 1) = (if low32 x = - 1 then high32 (x + 2 ^ 32) else high32 x)"
proof (cases "low32 x = - 1")
  case True
  then have "unat x mod 2 ^ 32 = 2 ^ 32 - 1"
    using unat_low32 [of x] unat_all_ones by simp
  then have "(unat x + 1) div 2 ^ 32 = (unat x + 2 ^ 32) div 2 ^ 32"
    by (intro carry_div) simp_all
  then have "unat (high32 (x + 1)) = unat (high32 (x + 2 ^ 32))"
    by (simp add: high32_plus)
  with True show ?thesis by (metis word_unat_eq_iff)
next
  case False
  then have "unat x mod 2 ^ 32 \<noteq> 2 ^ 32 - 1"
    using unat_low32 [of x] unat_all_ones by (metis word_unat_eq_iff)
  then have "(unat x + 1) div 2 ^ 32 = unat x div 2 ^ 32"
    by (intro carry_div) simp_all
  then have "unat (high32 (x + 1)) = unat (high32 x)"
    unfolding high32_plus unsigned_1 by (simp only: unat_high32)
  with False show ?thesis by (simp only: word_unat_eq_iff if_False)
qed

lemma low32_carry: "low32 (x + 2 ^ 32) = low32 x"
proof -
  have "unat (low32 (x + 2 ^ 32)) = unat (low32 x)"
    unfolding unat_low32 by (simp add: unat_word_ariths mod_mod_cancel)
  then show ?thesis by (simp only: word_unat_eq_iff)
qed

section \<open>Properties\<close>

text \<open>C25: A 64-bit read is two register reads. If the low half is read while the counter holds
  \<open>x\<close> and the high half after it was incremented, the result is right unless the increment
  carried into the high half; then it is \<open>x + 2 ^ 32\<close>, a value the counter never had.\<close>

theorem mmio_read64_torn:
  fixes x :: u64
  assumes "base_addr m \<noteq> 0"
    and "reg_read q m offset (device w) = (low32 x, d)"
    and "reg_read q m (offset + 4) d = (high32 (x + 1), d')"
  shows "mmio_read q m offset w =
    (Inr (if low32 x = - 1 then x + 2 ^ 32 else x), w\<lparr>device := d'\<rparr>)"
proof -
  have "push_bit 32 (ucast (high32 (x + 1))) OR ucast (low32 x) =
      (if low32 x = - 1 then x + 2 ^ 32 else x)"
    using join_halves [of x] join_halves [of "x + 2 ^ 32"]
    by (metis high32_Suc low32_carry)
  then show ?thesis using mmio_read64_run [OF assms] by simp
qed

theorem mmio_read64_torn_witness:
  "(mmio_read
      \<lparr>get_device = \<lambda>_. True, dev_count_avail = 1, get_bar_details = \<lambda>_. (0, 2), strerror = \<lambda>_. [],
       pci_write_reg = \<lambda>_ _ _ _ d. d,
       pci_read_reg = \<lambda>_ _ a d. (if a = 0x28 then low32 d else high32 d, d + 1)\<rparr>
      \<lparr>base_addr = 0x20, port_id = 0, bar_id = 2\<rparr> 8 :: (u64 world, u64) prog)
    \<lparr>device = 0xFFFFFFFF, log_lines = []\<rparr> =
   (Inr 0x1FFFFFFFF, \<lparr>device = 0x100000001, log_lines = []\<rparr>)"
  using mmio_read64_torn [of "\<lparr>base_addr = 0x20, port_id = 0, bar_id = 2\<rparr>"
      "\<lparr>get_device = \<lambda>_. True, dev_count_avail = 1, get_bar_details = \<lambda>_. (0, 2), strerror = \<lambda>_. [],
       pci_write_reg = \<lambda>_ _ _ _ d. d,
       pci_read_reg = \<lambda>_ _ a d. (if a = 0x28 then low32 d else high32 d, d + 1)\<rparr>"
      8 "\<lparr>device = 0xFFFFFFFF, log_lines = []\<rparr>" "0xFFFFFFFF" "0x100000000" "0x100000001"]
  by (simp add: low32_def high32_def)

end
