(* ===== verification/Filter_Rules.thy ===== *)
theory Filter_Rules
  imports Mmio
begin

text \<open>
  The control side of the filter in the server (\<open>packet_filter.h\<close>, \<open>packet_filter.cc\<close>): the class
  \<open>PacketFilter\<close> with its register map, the parsing and programming of a rule, the constructor
  and the statistics, and the class \<open>PacketAdapter\<close>. \<open>std::stoi\<close> is modelled from the language
  standard; \<open>inet_addr\<close> is a parameter. The locale \<open>filter_device\<close> is what the server relies on
  of the device behind the registers; the theory \<open>Register_File\<close> interprets it.
\<close>

unbundle bit_operations_syntax

section \<open>Register map\<close>

definition OPENNIC_USER_250_BASE_ADDR :: u32 where "OPENNIC_USER_250_BASE_ADDR = 0x100000"
definition PACKET_FILTER_OFFSET :: u32 where "PACKET_FILTER_OFFSET = 0x2000"
definition OPENNIC_ADAP_BASE_ADDR :: u32 where "OPENNIC_ADAP_BASE_ADDR = 0xB000"

definition IPV4_ADDR_REG :: u32 where "IPV4_ADDR_REG = 0x10"
definition UDP_PORT_REG :: u32 where "UDP_PORT_REG = 0x18"
definition RULE_ACTION_REG :: u32 where "RULE_ACTION_REG = 0x20"
definition STATS_PKT_IN_REG :: u32 where "STATS_PKT_IN_REG = 0x28"
definition STATS_PHIT_IN_REG :: u32 where "STATS_PHIT_IN_REG = 0x40"
definition STATS_PKT_FORWD_REG :: u32 where "STATS_PKT_FORWD_REG = 0x58"
definition STATS_PKT_DROP_REG :: u32 where "STATS_PKT_DROP_REG = 0x70"

definition TX_PACKET_SENT_REG :: u32 where "TX_PACKET_SENT_REG = 0x00"
definition TX_PACKET_DROPPED_REG :: u32 where "TX_PACKET_DROPPED_REG = 0x10"
definition RX_PACKET_RECV_REG :: u32 where "RX_PACKET_RECV_REG = 0x20"
definition RX_PACKET_DROPPED_REG :: u32 where "RX_PACKET_DROPPED_REG = 0x30"
definition RX_PACKET_ERROR_REG :: u32 where "RX_PACKET_ERROR_REG = 0x40"

definition FILTER_BASE :: u32 where
  "FILTER_BASE = OPENNIC_USER_250_BASE_ADDR + PACKET_FILTER_OFFSET"

lemmas register_map =
  IPV4_ADDR_REG_def UDP_PORT_REG_def RULE_ACTION_REG_def STATS_PKT_IN_REG_def STATS_PHIT_IN_REG_def
  STATS_PKT_FORWD_REG_def STATS_PKT_DROP_REG_def

lemma FILTER_BASE_eq: "FILTER_BASE = 0x102000"
  by (simp add: FILTER_BASE_def OPENNIC_USER_250_BASE_ADDR_def PACKET_FILTER_OFFSET_def)

datatype RuleAction = RULE_ACTION_DROP | RULE_ACTION_FORWARD

fun rule_action_num :: "RuleAction \<Rightarrow> u32" where
  "rule_action_num RULE_ACTION_DROP = 0"
| "rule_action_num RULE_ACTION_FORWARD = 1"

section \<open>Text to numbers\<close>

text \<open>
  \<open>std::stoi\<close>: skip white space, read an optional sign and the longest run of digits; no digits
  is \<open>std::invalid_argument\<close>, a value outside \<open>int\<close> is \<open>std::out_of_range\<close>, and what follows
  the digits is ignored.
\<close>

definition isspace :: "char \<Rightarrow> bool" where
  "isspace c \<longleftrightarrow> c = CHR '' '' \<or> (9 \<le> (of_char c :: nat) \<and> (of_char c :: nat) \<le> 13)"

definition isdigit :: "char \<Rightarrow> bool" where
  "isdigit c \<longleftrightarrow> 48 \<le> (of_char c :: nat) \<and> (of_char c :: nat) \<le> 57"

definition stoi :: "string \<Rightarrow> cpp_exception + int" where
  "stoi str =
     (let s = dropWhile isspace str;
          neg = (s \<noteq> [] \<and> hd s = CHR ''-'');
          s = (if s \<noteq> [] \<and> (hd s = CHR ''-'' \<or> hd s = CHR ''+'') then tl s else s);
          ds = takeWhile isdigit s;
          v = (if neg then - read_digits ds else read_digits ds)
      in if ds = [] then Inl InvalidArgument
         else if v < - (2 ^ 31) \<or> 2 ^ 31 \<le> v then Inl OutOfRange
         else Inr v)"

text \<open>\<open>std::string::find\<close> of a character.\<close>

definition find_char :: "char \<Rightarrow> string \<Rightarrow> nat option" where
  "find_char c s = (let n = length (takeWhile (\<lambda>x. x \<noteq> c) s) in if n < length s then Some n else None)"

text \<open>\<open>htons\<close> on a little-endian host, and the \<open>INADDR_NONE\<close> that reports a bad address.\<close>

definition htons :: "u16 \<Rightarrow> u16" where
  "htons x = bswap16 x"

definition INADDR_NONE :: u32 where
  "INADDR_NONE = 0xFFFFFFFF"

section \<open>Programming rules\<close>

definition update_rule ::
  "'d qdma \<Rightarrow> (string \<Rightarrow> u32) \<Rightarrow> mmio \<Rightarrow> string \<Rightarrow> RuleAction \<Rightarrow> ('d world, unit) prog" where
  "update_rule q inet_addr m net_addr act =
     thenp (log_msg INFO (''Updating rule: '' @ net_addr @ '' -> ''
       @ (if act = RULE_ACTION_DROP then ''DROP'' else ''FORWARD'')))
     (let colon_pos = find_char (CHR '':'') net_addr in
      thenp (log_assert (colon_pos \<noteq> None) (''Invalid net_addr format: '' @ net_addr))
      (let ip_str = take (the colon_pos) net_addr;
           port_str = drop (the colon_pos + 1) net_addr;
           ip = inet_addr ip_str in
       thenp (log_assert (ip \<noteq> INADDR_NONE) (''Invalid IP address: '' @ ip_str))
       (bindp (case stoi port_str of Inl e \<Rightarrow> raise (Uncaught e) | Inr v \<Rightarrow> ret v)
        (\<lambda>v. let port = htons (word_of_int v) in
         thenp (log_assert (port \<noteq> 0) (''Invalid port: '' @ port_str))
         (thenp (mmio_write q m IPV4_ADDR_REG ip)
         (thenp (mmio_write q m UDP_PORT_REG port)
                (mmio_write q m RULE_ACTION_REG (ucast (rule_action_num act) :: u8))))))))"

text \<open>The two constructors of \<open>PacketFilter\<close>; \<open>storage\<close> is the memory of the object.\<close>

definition packet_filter_default :: "'d qdma \<Rightarrow> mmio \<Rightarrow> ('d world, mmio) prog" where
  "packet_filter_default q storage =
     bindp (mmio_new q 0 storage) (\<lambda>m.
     ret (set_base_addr m (OPENNIC_USER_250_BASE_ADDR + PACKET_FILTER_OFFSET)))"

definition packet_filter_new ::
  "'d qdma \<Rightarrow> (string \<Rightarrow> u32) \<Rightarrow> mmio \<Rightarrow> string list \<Rightarrow> ('d world, mmio) prog" where
  "packet_filter_new q inet_addr storage filter_list =
     bindp (mmio_new q 0 storage) (\<lambda>m.
     let m = set_base_addr m (OPENNIC_USER_250_BASE_ADDR + PACKET_FILTER_OFFSET) in
     thenp (for_each (\<lambda>f. update_rule q inet_addr m f RULE_ACTION_FORWARD) filter_list)
     (ret m))"

definition packet_adapter_new :: "'d qdma \<Rightarrow> mmio \<Rightarrow> ('d world, mmio) prog" where
  "packet_adapter_new q storage =
     bindp (mmio_new q 0 storage) (\<lambda>m. ret (set_base_addr m OPENNIC_ADAP_BASE_ADDR))"

section \<open>Statistics\<close>

text \<open>The macro \<open>PRINT_STAT\<close>; \<open>s\<close> is the label in front of the number.\<close>

definition print_stat :: "string \<Rightarrow> u64 \<Rightarrow> ('d world, unit) prog" where
  "print_stat s val =
     (if val > 0 \<and> val \<noteq> - 1 then log_msg INFO (s @ show_nat (unat val)) else ret ())"

definition filter_show_stats :: "'d qdma \<Rightarrow> mmio \<Rightarrow> ('d world, unit) prog" where
  "filter_show_stats q m =
     bindp (mmio_read q m STATS_PKT_IN_REG) (\<lambda>pkt_in :: u64.
     bindp (mmio_read q m STATS_PHIT_IN_REG) (\<lambda>phit_in :: u64.
     bindp (mmio_read q m STATS_PKT_FORWD_REG) (\<lambda>pkt_forwd :: u64.
     bindp (mmio_read q m STATS_PKT_DROP_REG) (\<lambda>pkt_drop :: u64.
     if pkt_in = 0 \<and> pkt_forwd = 0 \<and> pkt_drop = 0 then ret ()
     else
       thenp (log_msg INFO ''Packet Filter Statistics:'')
       (thenp (print_stat ''  Packets In:        '' pkt_in)
       (thenp (print_stat ''  Phits In:          '' phit_in)
       (thenp (print_stat ''  Packets Forwarded: '' pkt_forwd)
              (print_stat ''  Packets Dropped:   '' pkt_drop))))))))"

definition adapter_show_stats :: "'d qdma \<Rightarrow> mmio \<Rightarrow> ('d world, unit) prog" where
  "adapter_show_stats q m =
     bindp (mmio_read q m TX_PACKET_SENT_REG) (\<lambda>tx_packet_sent :: u64.
     bindp (mmio_read q m TX_PACKET_DROPPED_REG) (\<lambda>tx_packet_dropped :: u64.
     bindp (mmio_read q m RX_PACKET_RECV_REG) (\<lambda>rx_packet_recv :: u64.
     bindp (mmio_read q m RX_PACKET_DROPPED_REG) (\<lambda>rx_packet_dropped :: u64.
     bindp (mmio_read q m RX_PACKET_ERROR_REG) (\<lambda>rx_packet_error :: u64.
     if rx_packet_recv = 0 \<and> tx_packet_sent = 0 then ret ()
     else
       thenp (log_msg INFO ''Packet Adapter Statistics:'')
       (thenp (print_stat ''  TX Packets Sent:        '' tx_packet_sent)
       (thenp (print_stat ''  TX Packets Dropped:     '' tx_packet_dropped)
       (thenp (print_stat ''  RX Packets Received:    '' rx_packet_recv)
       (thenp (print_stat ''  RX Packets Dropped:     '' rx_packet_dropped)
              (print_stat ''  RX Packets Error:       '' rx_packet_error))))))))))"

section \<open>Decimal numbers\<close>

lemma read_digits_snoc: "read_digits (s @ [c]) = 10 * read_digits s + char_digit c"
  by (simp add: read_digits_def)

lemma of_char_digit_char: "0 \<le> d \<Longrightarrow> d < 10 \<Longrightarrow> (of_char (digit_char d) :: nat) = 48 + nat d"
proof -
  assume d: "0 \<le> d" "d < 10"
  then have "int (of_char (digit_char d)) = 48 + d"
    by (simp add: digit_char_def of_nat_of_char)
  with d show ?thesis by linarith
qed

lemma isdigit_digit_char: "0 \<le> d \<Longrightarrow> d < 10 \<Longrightarrow> isdigit (digit_char d)"
  by (simp add: isdigit_def of_char_digit_char)

lemma isdigit_not_special: "isdigit c \<Longrightarrow> \<not> isspace c \<and> c \<noteq> CHR ''-'' \<and> c \<noteq> CHR ''+'' \<and> c \<noteq> CHR '':''"
  by (auto simp: isdigit_def isspace_def)

lemma show_nat_digits: "show_nat n \<noteq> [] \<and> list_all isdigit (show_nat n) \<and> read_digits (show_nat n) = int n"
proof (induction n rule: show_nat.induct)
  case (1 n)
  have step: "show_nat n = (if n < 10 then [] else show_nat (n div 10)) @ [digit_char (int (n mod 10))]"
    by (subst show_nat.simps) simp
  have digit: "isdigit (digit_char (int (n mod 10)))" "char_digit (digit_char (int (n mod 10))) = int (n mod 10)"
    by (simp_all add: isdigit_digit_char char_digit_char)
  have "10 * int (n div 10) + int (n mod 10) = int n" by presburger
  then show ?case
    using "1" digit by (cases "n < 10") (simp_all add: step read_digits_snoc, simp add: read_digits_def)
qed

lemma stoi_show_nat:
  assumes "n < 2 ^ 31" and "rest = [] \<or> \<not> isdigit (hd rest)"
  shows "stoi (show_nat n @ rest) = Inr (int n)"
proof -
  obtain c cs where c: "show_nat n = c # cs" "isdigit c"
    using show_nat_digits [of n] by (cases "show_nat n") auto
  have "takeWhile isdigit (show_nat n @ rest) = show_nat n"
    using show_nat_digits [of n] assms(2)
    by (cases rest) (auto simp: takeWhile_append list_all_iff)
  moreover have "dropWhile isspace (show_nat n @ rest) = show_nat n @ rest"
    using c isdigit_not_special by simp
  moreover have "hd (show_nat n @ rest) = c" using c by simp
  ultimately show ?thesis
    using assms(1) c show_nat_digits [of n] isdigit_not_special [of c] by (simp add: stoi_def Let_def)
qed

section \<open>What a rule update does\<close>

lemma find_char_append: "c \<notin> set s \<Longrightarrow> find_char c (s @ c # r) = Some (length s)"
  by (simp add: find_char_def takeWhile_append)

lemma find_char_SomeD: "find_char c s = Some n \<Longrightarrow> s = take n s @ c # drop (n + 1) s \<and> c \<notin> set (take n s)"
proof -
  let ?t = "takeWhile (\<lambda>x. x \<noteq> c) s"
  assume "find_char c s = Some n"
  then have n: "n = length ?t" "n < length s"
    unfolding find_char_def Let_def by (simp_all split: if_splits)
  have "s ! length ?t = c"
    using nth_length_takeWhile [of "\<lambda>x. x \<noteq> c" s] n by simp
  then have "s ! n = c" using n(1) by simp
  with id_take_nth_drop [OF n(2)] have "s = take n s @ c # drop (n + 1) s"
    by (simp only: Suc_eq_plus1)
  moreover have "take n s = ?t"
    unfolding n(1) by (rule takeWhile_eq_take [symmetric])
  moreover have "c \<notin> set ?t"
    by (metis (mono_tags) set_takeWhileD)
  ultimately show ?thesis by metis
qed

text \<open>The three register accesses of an accepted rule, in their order.\<close>

definition rule_writes :: "'d qdma \<Rightarrow> mmio \<Rightarrow> u32 \<Rightarrow> u16 \<Rightarrow> RuleAction \<Rightarrow> 'd \<Rightarrow> 'd" where
  "rule_writes q m ip port act d =
     reg_write q m RULE_ACTION_REG (rule_action_num act)
       (reg_write q m UDP_PORT_REG (ucast port)
         (reg_write q m IPV4_ADDR_REG ip d))"

definition rule_log :: "string \<Rightarrow> RuleAction \<Rightarrow> Level \<times> string" where
  "rule_log net_addr act = (INFO, ''Updating rule: '' @ net_addr @ '' -> ''
     @ (if act = RULE_ACTION_DROP then ''DROP'' else ''FORWARD''))"

lemma update_rule_accepted:
  assumes "base_addr m \<noteq> 0" and "CHR '':'' \<notin> set ip_str" and "inet_addr ip_str \<noteq> INADDR_NONE"
    and "stoi port_str = Inr v" and "(word_of_int v :: u16) \<noteq> 0"
  shows "update_rule q inet_addr m (ip_str @ CHR '':'' # port_str) act w =
    (Inr (), w\<lparr>device := rule_writes q m (inet_addr ip_str) (htons (word_of_int v)) act (device w),
               log_lines := log_lines w @ [rule_log (ip_str @ CHR '':'' # port_str) act]\<rparr>)"
proof -
  have "(ucast (ucast (rule_action_num act) :: u8) :: u32) = rule_action_num act"
    by (cases act) simp_all
  then show ?thesis
    using assms find_char_append [OF assms(2), of port_str]
    by (simp add: update_rule_def prog_simps htons_def rule_writes_def rule_log_def)
qed

text \<open>A rule is accepted when it has a colon, an address and a port that is not 0 modulo \<open>2 ^ 16\<close>.\<close>

definition rule_ok :: "(string \<Rightarrow> u32) \<Rightarrow> string \<Rightarrow> bool" where
  "rule_ok inet_addr net_addr =
     (case find_char (CHR '':'') net_addr of
        None \<Rightarrow> False
      | Some n \<Rightarrow> inet_addr (take n net_addr) \<noteq> INADDR_NONE \<and>
          (case stoi (drop (n + 1) net_addr) of Inl e \<Rightarrow> False | Inr v \<Rightarrow> (word_of_int v :: u16) \<noteq> 0))"

lemma update_rule_rejected:
  assumes "\<not> rule_ok inet_addr net_addr"
  shows "\<exists>e w'. update_rule q inet_addr m net_addr act w = (Inl e, w') \<and> device w' = device w"
proof (cases "find_char (CHR '':'') net_addr")
  case None
  then show ?thesis by (simp add: update_rule_def prog_simps)
next
  case (Some n)
  then show ?thesis
    using assms
    unfolding update_rule_def rule_ok_def htons_def Let_def
    by (auto simp: prog_simps split: sum.splits)
qed

lemma rule_ok_cases:
  assumes "rule_ok inet_addr net_addr"
  obtains ip_str port_str v where "net_addr = ip_str @ CHR '':'' # port_str" "CHR '':'' \<notin> set ip_str"
    "inet_addr ip_str \<noteq> INADDR_NONE" "stoi port_str = Inr v" "(word_of_int v :: u16) \<noteq> 0"
proof -
  obtain n where n: "find_char (CHR '':'') net_addr = Some n"
    using assms by (auto simp: rule_ok_def split: option.splits)
  obtain v where "stoi (drop (n + 1) net_addr) = Inr v" "(word_of_int v :: u16) \<noteq> 0"
    "inet_addr (take n net_addr) \<noteq> INADDR_NONE"
    using assms n by (auto simp: rule_ok_def split: sum.splits)
  with find_char_SomeD [OF n] that show thesis by blast
qed

text \<open>The address and the port of a rule text, as the code extracts them.\<close>

definition rule_ip :: "(string \<Rightarrow> u32) \<Rightarrow> string \<Rightarrow> u32" where
  "rule_ip inet_addr f = inet_addr (take (the (find_char (CHR '':'') f)) f)"

definition rule_port :: "string \<Rightarrow> u16" where
  "rule_port f =
     (case stoi (drop (the (find_char (CHR '':'') f) + 1) f) of Inl e \<Rightarrow> 0 | Inr v \<Rightarrow> htons (word_of_int v))"

lemma rule_parts:
  assumes "CHR '':'' \<notin> set ip_str" and "stoi port_str = Inr v"
  shows "rule_ip inet_addr (ip_str @ CHR '':'' # port_str) = inet_addr ip_str"
    and "rule_port (ip_str @ CHR '':'' # port_str) = htons (word_of_int v)"
  using assms(2) find_char_append [OF assms(1), of port_str] by (simp_all add: rule_ip_def rule_port_def)

lemma update_rule_ok:
  assumes "base_addr m \<noteq> 0" and "rule_ok inet_addr f"
  shows "update_rule q inet_addr m f act w =
    (Inr (), w\<lparr>device := rule_writes q m (rule_ip inet_addr f) (rule_port f) act (device w),
               log_lines := log_lines w @ [rule_log f act]\<rparr>)"
  using assms(2)
proof (rule rule_ok_cases)
  fix ip_str port_str v
  assume f: "f = ip_str @ CHR '':'' # port_str" and ip: "CHR '':'' \<notin> set ip_str"
    "inet_addr ip_str \<noteq> INADDR_NONE" and port: "stoi port_str = Inr v" "(word_of_int v :: u16) \<noteq> 0"
  show ?thesis
    unfolding f rule_parts [OF ip(1) port(1)] using assms(1) ip port by (intro update_rule_accepted)
qed

text \<open>The constructor's loop.\<close>

lemma rules_loop:
  assumes "base_addr m \<noteq> 0" and "list_all (rule_ok inet_addr) fs"
  shows "for_each (\<lambda>f. update_rule q inet_addr m f act) fs w =
    (Inr (), w\<lparr>device := fold (\<lambda>f. rule_writes q m (rule_ip inet_addr f) (rule_port f) act) fs (device w),
               log_lines := log_lines w @ map (\<lambda>f. rule_log f act) fs\<rparr>)"
  using assms(2)
proof (induction fs arbitrary: w)
  case Nil
  then show ?case by (simp add: prog_simps)
next
  case (Cons f fs)
  then have "update_rule q inet_addr m f act w =
    (Inr (), w\<lparr>device := rule_writes q m (rule_ip inet_addr f) (rule_port f) act (device w),
               log_lines := log_lines w @ [rule_log f act]\<rparr>)"
    by (intro update_rule_ok assms(1)) simp
  then show ?case using Cons by (simp add: thenp_run(2))
qed

lemma rules_loop_rejects:
  assumes "base_addr m \<noteq> 0" and "list_all (rule_ok inet_addr) good" and "\<not> rule_ok inet_addr bad"
  shows "\<exists>e w'. for_each (\<lambda>f. update_rule q inet_addr m f act) (good @ bad # rest) w = (Inl e, w') \<and>
    device w' = fold (\<lambda>f. rule_writes q m (rule_ip inet_addr f) (rule_port f) act) good (device w)"
proof -
  let ?w = "w\<lparr>device := fold (\<lambda>f. rule_writes q m (rule_ip inet_addr f) (rule_port f) act) good (device w),
      log_lines := log_lines w @ map (\<lambda>f. rule_log f act) good\<rparr>"
  obtain e w' where "update_rule q inet_addr m bad act ?w = (Inl e, w')" "device w' = device ?w"
    using update_rule_rejected [OF assms(3)] by blast
  then show ?thesis
    by (simp add: for_each_append rules_loop [OF assms(1,2)] prog_simps)
qed

text \<open>The constructors on a working driver.\<close>

definition qdma_ok :: "'d qdma \<Rightarrow> u32 \<Rightarrow> bool" where
  "qdma_ok q bar \<longleftrightarrow> get_device q 0 \<and> (ucast (dev_count_avail q) :: u8) \<noteq> 0 \<and> get_bar_details q 0 = (0, bar)"

lemma mmio_new_ok: "qdma_ok q bar \<Longrightarrow> mmio_new q 0 m w = (Inr (m\<lparr>port_id := 0, bar_id := bar\<rparr>), w)"
proof -
  assume q: "qdma_ok q bar"
  then have "(0 :: u32) < ucast (ucast (dev_count_avail q) :: u8)"
    using ucast_extend_inject [of "ucast (dev_count_avail q) :: u8" 0, where ?'b = 32]
    by (simp add: qdma_ok_def word_gt_0)
  with q show ?thesis by (simp add: mmio_new_def qdma_ok_def prog_simps)
qed

definition filter_mmio :: "u32 \<Rightarrow> mmio" where
  "filter_mmio bar = \<lparr>base_addr = FILTER_BASE, port_id = 0, bar_id = bar\<rparr>"

lemma filter_mmio_base [simp]: "base_addr (filter_mmio bar) \<noteq> 0"
  by (simp add: filter_mmio_def FILTER_BASE_eq)

lemma set_base_new:
  "set_base_addr (m\<lparr>port_id := 0, bar_id := bar\<rparr>) (OPENNIC_USER_250_BASE_ADDR + PACKET_FILTER_OFFSET) =
     filter_mmio bar"
  by (simp add: set_base_addr_def filter_mmio_def FILTER_BASE_def)

lemma packet_filter_default_ok:
  "qdma_ok q bar \<Longrightarrow> packet_filter_default q storage w = (Inr (filter_mmio bar), w)"
  by (simp add: packet_filter_default_def bindp_run(2) [OF mmio_new_ok] set_base_new prog_simps)

lemma packet_filter_new_ok:
  "qdma_ok q bar \<Longrightarrow> packet_filter_new q inet_addr storage fs w =
     thenp (for_each (\<lambda>f. update_rule q inet_addr (filter_mmio bar) f RULE_ACTION_FORWARD) fs)
       (ret (filter_mmio bar)) w"
  by (simp add: packet_filter_new_def bindp_run(2) [OF mmio_new_ok] set_base_new Let_def)

lemma filter_new_device:
  assumes "qdma_ok q bar" and "list_all (rule_ok inet_addr) fs"
  shows "device (snd (packet_filter_new q inet_addr storage fs w)) =
    fold (\<lambda>f. rule_writes q (filter_mmio bar) (rule_ip inet_addr f) (rule_port f) RULE_ACTION_FORWARD) fs (device w)"
  by (simp add: packet_filter_new_ok [OF assms(1)] thenp_run(2) [OF rules_loop [OF filter_mmio_base assms(2)]] ret_run)

section \<open>What the statistics print\<close>

definition stat_line :: "string \<Rightarrow> u64 \<Rightarrow> (Level \<times> string) list" where
  "stat_line s val = (if val > 0 \<and> val \<noteq> - 1 then [(INFO, s @ show_nat (unat val))] else [])"

lemma print_stat_run [prog_simps]:
  "print_stat s val w = (Inr (), w\<lparr>log_lines := log_lines w @ stat_line s val\<rparr>)"
  by (simp add: print_stat_def stat_line_def prog_simps)

definition filter_stats_lines :: "u64 \<Rightarrow> u64 \<Rightarrow> u64 \<Rightarrow> u64 \<Rightarrow> (Level \<times> string) list" where
  "filter_stats_lines pkt_in phit_in pkt_forwd pkt_drop =
     (if pkt_in = 0 \<and> pkt_forwd = 0 \<and> pkt_drop = 0 then []
      else (INFO, ''Packet Filter Statistics:'') # stat_line ''  Packets In:        '' pkt_in
        @ stat_line ''  Phits In:          '' phit_in @ stat_line ''  Packets Forwarded: '' pkt_forwd
        @ stat_line ''  Packets Dropped:   '' pkt_drop)"

text \<open>A register pair that reads as a 64-bit value without changing the device.\<close>

definition reads64 :: "'d qdma \<Rightarrow> mmio \<Rightarrow> 'd \<Rightarrow> u32 \<Rightarrow> u64 \<Rightarrow> bool" where
  "reads64 q m d offset val \<longleftrightarrow>
     reg_read q m offset d = (low32 val, d) \<and> reg_read q m (offset + 4) d = (high32 val, d)"

lemma mmio_read_reads64:
  "base_addr m \<noteq> 0 \<Longrightarrow> reads64 q m (device w) offset val \<Longrightarrow> mmio_read q m offset w = (Inr val, w)"
  by (simp add: reads64_def mmio_read64_run)

lemma bindp_reads64 [prog_simps]:
  "base_addr m \<noteq> 0 \<Longrightarrow> reads64 q m (device w) offset val \<Longrightarrow> bindp (mmio_read q m offset) f w = f val w"
  by (simp add: mmio_read_reads64 bindp_run(2))

lemma filter_show_stats_run:
  assumes "base_addr m \<noteq> 0" and "reads64 q m (device w) STATS_PKT_IN_REG pi"
    and "reads64 q m (device w) STATS_PHIT_IN_REG ph" and "reads64 q m (device w) STATS_PKT_FORWD_REG pf"
    and "reads64 q m (device w) STATS_PKT_DROP_REG pd"
  shows "filter_show_stats q m w =
    (Inr (), w\<lparr>log_lines := log_lines w @ filter_stats_lines pi ph pf pd\<rparr>)"
proof (cases "pi = 0 \<and> pf = 0 \<and> pd = 0")
  case True
  then show ?thesis
    using assms by (simp add: filter_show_stats_def filter_stats_lines_def prog_simps)
next
  case False
  then show ?thesis
    using assms
    by (simp add: filter_show_stats_def filter_stats_lines_def bindp_reads64 log_then
        thenp_run(2) [OF print_stat_run] print_stat_run ret_run)
qed

section \<open>The device behind the registers\<close>

text \<open>
  What the server relies on: the three configuration registers at the offsets of the register
  map hold what was last written to them, cut to their width, independently of each other, and
  each counter reads as the two halves of its value. The comments of the register map state the
  offsets and the widths; they come from the interface that synthesis generates.
\<close>

locale filter_device =
  fixes q :: "'d qdma" and port bar :: u32
    and cfg :: "'d \<Rightarrow> u32 \<times> u16 \<times> u8"
    and counter :: "'d \<Rightarrow> u32 \<Rightarrow> u64"
  assumes w_ipv4_addr: "cfg (pci_write_reg q port bar (FILTER_BASE + IPV4_ADDR_REG) v d) =
      (v, fst (snd (cfg d)), snd (snd (cfg d)))"
    and w_udp_port: "cfg (pci_write_reg q port bar (FILTER_BASE + UDP_PORT_REG) v d) =
      (fst (cfg d), ucast v, snd (snd (cfg d)))"
    and w_rule_action: "cfg (pci_write_reg q port bar (FILTER_BASE + RULE_ACTION_REG) v d) =
      (fst (cfg d), fst (snd (cfg d)), ucast v)"
    and r_counter: "offset \<in> {STATS_PKT_IN_REG, STATS_PHIT_IN_REG, STATS_PKT_FORWD_REG, STATS_PKT_DROP_REG} \<Longrightarrow>
      pci_read_reg q port bar (FILTER_BASE + offset) d = (low32 (counter d offset), d) \<and>
      pci_read_reg q port bar (FILTER_BASE + (offset + 4)) d = (high32 (counter d offset), d)"
begin

lemma cfg_rule_writes:
  assumes "m = \<lparr>base_addr = FILTER_BASE, port_id = port, bar_id = bar\<rparr>"
  shows "cfg (rule_writes q m ip p act d) = (ip, p, ucast (rule_action_num act))"
proof -
  have "(ucast (ucast p :: u32) :: u16) = p"
    by (rule bit_word_eqI) (simp add: bit_simps)
  then show ?thesis
    by (simp add: rule_writes_def assms w_ipv4_addr w_udp_port w_rule_action)
qed

text \<open>After the constructor's loop the registers hold the last rule.\<close>

lemma cfg_rules:
  assumes "m = \<lparr>base_addr = FILTER_BASE, port_id = port, bar_id = bar\<rparr>" and "fs \<noteq> []"
  shows "cfg (fold (\<lambda>f. rule_writes q m (ip f) (p f) act) fs d) =
    (ip (last fs), p (last fs), ucast (rule_action_num act))"
  using assms(2) by (induction fs rule: rev_induct) (simp_all add: cfg_rule_writes [OF assms(1)])

lemma counter_reads64:
  assumes "m = \<lparr>base_addr = FILTER_BASE, port_id = port, bar_id = bar\<rparr>"
    and "offset \<in> {STATS_PKT_IN_REG, STATS_PHIT_IN_REG, STATS_PKT_FORWD_REG, STATS_PKT_DROP_REG}"
  shows "reads64 q m d offset (counter d offset)"
  using r_counter [OF assms(2)] by (simp add: reads64_def assms(1))

lemma show_stats_lines:
  assumes "m = \<lparr>base_addr = FILTER_BASE, port_id = port, bar_id = bar\<rparr>"
  shows "filter_show_stats q m w = (Inr (), w\<lparr>log_lines := log_lines w @
     filter_stats_lines (counter (device w) STATS_PKT_IN_REG) (counter (device w) STATS_PHIT_IN_REG)
       (counter (device w) STATS_PKT_FORWD_REG) (counter (device w) STATS_PKT_DROP_REG)\<rparr>)"
  by (rule filter_show_stats_run) (simp_all add: counter_reads64 [OF assms], simp add: assms FILTER_BASE_eq)

end

section \<open>Properties\<close>

text \<open>
  A reader of dotted decimal addresses, as \<open>inet_addr\<close> documents them: four decimal numbers up
  to 255, the first in the lowest byte, and \<open>INADDR_NONE\<close> for anything else. The witnesses use
  it for the parameter.
\<close>

fun split_on :: "char \<Rightarrow> string \<Rightarrow> string list" where
  "split_on c [] = [[]]"
| "split_on c (x # xs) =
     (if x = c then [] # split_on c xs
      else (case split_on c xs of [] \<Rightarrow> [[x]] | y # ys \<Rightarrow> (x # y) # ys))"

definition decimal_byte :: "string \<Rightarrow> u8 option" where
  "decimal_byte s =
     (if s \<noteq> [] \<and> list_all isdigit s \<and> read_digits s < 256 then Some (word_of_int (read_digits s)) else None)"

definition dotted_addr :: "string \<Rightarrow> u32" where
  "dotted_addr s =
     (case map decimal_byte (split_on (CHR ''.'') s) of
        [Some a, Some b, Some c, Some d] \<Rightarrow> le_word [a, b, c, d]
      | _ \<Rightarrow> INADDR_NONE)"

text \<open>A driver that records the register writes, and a rule, for the witnesses.\<close>

definition trace_qdma :: "(u32 \<times> u32) list qdma" where
  "trace_qdma =
     \<lparr>get_device = \<lambda>_. True, dev_count_avail = 1, get_bar_details = \<lambda>_. (0, 2), strerror = \<lambda>_. [],
      pci_write_reg = \<lambda>_ _ a v d. d @ [(a, v)], pci_read_reg = \<lambda>_ _ a d. (0, d)\<rparr>"

lemma example_addr: "dotted_addr ''192.168.2.1'' = 0x0102A8C0"
  by (simp add: dotted_addr_def decimal_byte_def read_digits_def char_digit_def isdigit_def)

lemma example_rule:
  "rule_ok dotted_addr ''192.168.2.1:8500''"
  "rule_ip dotted_addr ''192.168.2.1:8500'' = 0x0102A8C0"
  "rule_port ''192.168.2.1:8500'' = 0x3421"
proof -
  have f: "find_char (CHR '':'') ''192.168.2.1:8500'' = Some 11" by (simp add: find_char_def)
  have port: "stoi ''8500'' = Inr 8500"
    by (simp add: stoi_def read_digits_def char_digit_def isdigit_def isspace_def)
  show "rule_ok dotted_addr ''192.168.2.1:8500''"
    "rule_ip dotted_addr ''192.168.2.1:8500'' = 0x0102A8C0"
    "rule_port ''192.168.2.1:8500'' = 0x3421"
    by (simp_all add: rule_ok_def rule_ip_def rule_port_def f example_addr port INADDR_NONE_def
        htons_def bswap16_def)
qed

text \<open>C8: A rule text is either rejected, by aborting or by an exception, before any register is
  written, or it has the form address, colon, port and ends with exactly the three register
  writes: address, port in network byte order, action.\<close>

theorem update_rule_all_or_nothing:
  assumes "base_addr m \<noteq> 0"
  shows "let (r, w') = update_rule q inet_addr m f act w in
     if rule_ok inet_addr f
     then r = Inr () \<and> device w' = rule_writes q m (rule_ip inet_addr f) (rule_port f) act (device w)
     else (\<exists>e. r = Inl e) \<and> device w' = device w"
proof (cases "rule_ok inet_addr f")
  case True
  then show ?thesis by (simp add: update_rule_ok [OF assms])
next
  case False
  then show ?thesis using update_rule_rejected [OF False, of q m act w] by auto
qed

theorem update_rule_all_or_nothing_witness:
  "device (snd (update_rule trace_qdma dotted_addr (filter_mmio 2) ''192.168.2.1:8500''
      RULE_ACTION_FORWARD \<lparr>device = [], log_lines = []\<rparr>)) =
   [(0x102010, 0x0102A8C0), (0x102018, 0x3421), (0x102020, 1)]"
  using update_rule_all_or_nothing [OF filter_mmio_base [of 2], of trace_qdma dotted_addr
      "''192.168.2.1:8500''" RULE_ACTION_FORWARD "\<lparr>device = [], log_lines = []\<rparr>"]
  by (simp add: example_rule case_prod_unfold Let_def rule_writes_def trace_qdma_def filter_mmio_def
      FILTER_BASE_eq register_map)

text \<open>C9: The constructor programs the listed rules in their order, as forwarding rules. The first
  text that is no rule ends the process; the rules before it stay programmed in the hardware and
  the ones after it are never written.\<close>

theorem packet_filter_new_programs:
  assumes "qdma_ok q bar" and "list_all (rule_ok inet_addr) good"
    and "rest = [] \<or> \<not> rule_ok inet_addr (hd rest)"
  shows "let (r, w') = packet_filter_new q inet_addr storage (good @ rest) w in
     device w' = fold (\<lambda>f. rule_writes q (filter_mmio bar) (rule_ip inet_addr f) (rule_port f)
       RULE_ACTION_FORWARD) good (device w) \<and>
     (if rest = [] then r = Inr (filter_mmio bar) else \<exists>e. r = Inl e)"
proof (cases rest)
  case Nil
  show ?thesis
    by (simp add: packet_filter_new_ok [OF assms(1)] Nil thenp_run(2) [OF rules_loop]
        assms(2) prog_simps)
next
  case (Cons bad rest')
  then have bad: "\<not> rule_ok inet_addr bad" using assms(3) by simp
  obtain e w' where "for_each (\<lambda>f. update_rule q inet_addr (filter_mmio bar) f RULE_ACTION_FORWARD)
      (good @ bad # rest') w = (Inl e, w')"
    "device w' = fold (\<lambda>f. rule_writes q (filter_mmio bar) (rule_ip inet_addr f) (rule_port f)
       RULE_ACTION_FORWARD) good (device w)"
    using rules_loop_rejects [OF filter_mmio_base assms(2) bad] by blast
  then show ?thesis
    by (simp add: packet_filter_new_ok [OF assms(1)] Cons thenp_run(1))
qed

theorem packet_filter_new_programs_witness:
  "device (snd (packet_filter_new trace_qdma dotted_addr undefined [''192.168.2.1:8500'', ''any'',
      ''192.168.2.1:8500''] \<lparr>device = [], log_lines = []\<rparr>)) =
   [(0x102010, 0x0102A8C0), (0x102018, 0x3421), (0x102020, 1)]"
proof -
  have "\<not> rule_ok dotted_addr ''any''" by (simp add: rule_ok_def find_char_def)
  then show ?thesis
    using packet_filter_new_programs [of trace_qdma 2 dotted_addr "[''192.168.2.1:8500'']"
        "[''any'', ''192.168.2.1:8500'']" undefined "\<lparr>device = [], log_lines = []\<rparr>"]
    by (simp add: example_rule case_prod_unfold Let_def rule_writes_def trace_qdma_def qdma_ok_def
        filter_mmio_def FILTER_BASE_eq register_map)
qed

text \<open>C37: The port number of a rule is taken modulo \<open>2 ^ 16\<close>, and text after its digits is
  ignored: \<open>ip:n\<close> with any such suffix writes the same registers as \<open>ip\<close> with the port
  \<open>n mod 65536\<close>, also when \<open>n\<close> is no port number.\<close>

theorem update_rule_port_wraps:
  assumes "base_addr m \<noteq> 0" and "CHR '':'' \<notin> set ip_str" and "inet_addr ip_str \<noteq> INADDR_NONE"
    and "n < 2 ^ 31" and "n mod 2 ^ 16 \<noteq> 0" and "junk = [] \<or> \<not> isdigit (hd junk)"
  shows "device (snd (update_rule q inet_addr m (ip_str @ CHR '':'' # show_nat n @ junk) act w)) =
     rule_writes q m (inet_addr ip_str) (htons (word_of_nat (n mod 2 ^ 16))) act (device w)"
proof -
  have w: "(word_of_int (int n) :: u16) = word_of_nat (n mod 2 ^ 16)"
    by (simp add: word_unat_eq_iff unsigned_of_nat take_bit_eq_mod)
  have "(word_of_int (int n) :: u16) \<noteq> 0"
    using assms(5) by (simp add: w word_unat_eq_iff unsigned_of_nat take_bit_eq_mod)
  from update_rule_accepted [OF assms(1,2) _ stoi_show_nat [OF assms(4,6)] this, of inet_addr q act w]
  have "device (snd (update_rule q inet_addr m (ip_str @ CHR '':'' # show_nat n @ junk) act w)) =
      rule_writes q m (inet_addr ip_str) (htons (word_of_int (int n))) act (device w)"
    using assms(3) by simp
  then show ?thesis by (simp only: w)
qed

theorem update_rule_port_wraps_witness:
  "device (snd (update_rule trace_qdma dotted_addr (filter_mmio 2) ''192.168.2.1:74036/udp''
      RULE_ACTION_FORWARD \<lparr>device = [], log_lines = []\<rparr>)) =
   [(0x102010, 0x0102A8C0), (0x102018, 0x3421), (0x102020, 1)]"
proof -
  have "show_nat 74036 = ''74036''" by (simp add: show_nat.simps digit_char_def char_of_def)
  then show ?thesis
    using update_rule_port_wraps [OF filter_mmio_base [of 2], of "''192.168.2.1''" dotted_addr 74036
        "''/udp''" trace_qdma RULE_ACTION_FORWARD "\<lparr>device = [], log_lines = []\<rparr>"]
    by (simp add: example_addr INADDR_NONE_def isdigit_def rule_writes_def trace_qdma_def filter_mmio_def
        FILTER_BASE_eq register_map htons_def bswap16_def)
qed

end
