(* ===== verification/Register_File.thy ===== *)
theory Register_File
  imports Filter_Core Filter_Rules
begin

text \<open>
  The two halves of the program joined: the registers that the \<open>s_axilite\<close> pragmas of
  \<open>packet_filter\<close> give the arguments of the core, at the offsets and widths that
  \<open>PacketFilter::RegisterMap\<close> records for them. Everything else the driver does is the parameter
  \<open>drv\<close>. The core meets the contract \<open>filter_device\<close> of the server.
\<close>

unbundle bit_operations_syntax

section \<open>The registers of the core\<close>

text \<open>The register of each counter, \<open>None\<close> for other offsets.\<close>

definition stats_reg :: "u32 \<Rightarrow> statistics_t \<Rightarrow> u64 option" where
  "stats_reg offset s =
     (if offset = STATS_PKT_IN_REG then Some (pkt_in s)
      else if offset = STATS_PHIT_IN_REG then Some (phit_in s)
      else if offset = STATS_PKT_FORWD_REG then Some (pkt_forward s)
      else if offset = STATS_PKT_DROP_REG then Some (pkt_drop s) else None)"

definition core_reg_write :: "u32 \<Rightarrow> u32 \<Rightarrow> core \<Rightarrow> core option" where
  "core_reg_write offset v s =
     (if offset = IPV4_ADDR_REG then Some (core_next (SetIpv4Addr v) s)
      else if offset = UDP_PORT_REG then Some (core_next (SetUdpPort (ucast v)) s)
      else if offset = RULE_ACTION_REG then Some (core_next (SetAction (ucast v)) s) else None)"

definition core_reg_read :: "u32 \<Rightarrow> core \<Rightarrow> u32 option" where
  "core_reg_read offset s =
     (case stats_reg offset (stats (fst s)) of
        Some v \<Rightarrow> Some (low32 v)
      | None \<Rightarrow> map_option high32 (stats_reg (offset - 4) (stats (fst s))))"

definition core_qdma :: "u32 \<Rightarrow> core qdma \<Rightarrow> core qdma" where
  "core_qdma bar drv = drv
     \<lparr>pci_write_reg := \<lambda>port b a v s.
        (if port = 0 \<and> b = bar then
           (case core_reg_write (a - FILTER_BASE) v s of Some s' \<Rightarrow> s' | None \<Rightarrow> pci_write_reg drv port b a v s)
         else pci_write_reg drv port b a v s),
      pci_read_reg := \<lambda>port b a s.
        (if port = 0 \<and> b = bar then
           (case core_reg_read (a - FILTER_BASE) s of Some v \<Rightarrow> (v, s) | None \<Rightarrow> pci_read_reg drv port b a s)
         else pci_read_reg drv port b a s)\<rparr>"

definition core_cfg :: "core \<Rightarrow> u32 \<times> u16 \<times> u8" where
  "core_cfg s = (ipv4_addr (fst s), udp_port (fst s), action (fst s))"

definition core_counter :: "core \<Rightarrow> u32 \<Rightarrow> u64" where
  "core_counter s offset = (case stats_reg offset (stats (fst s)) of Some v \<Rightarrow> v | None \<Rightarrow> 0)"

lemma core_reg_write_simps [simp]:
  "core_reg_write IPV4_ADDR_REG v s = Some (core_next (SetIpv4Addr v) s)"
  "core_reg_write UDP_PORT_REG v s = Some (core_next (SetUdpPort (ucast v)) s)"
  "core_reg_write RULE_ACTION_REG v s = Some (core_next (SetAction (ucast v)) s)"
  by (simp_all add: core_reg_write_def register_map)

lemma stats_reg_simps [simp]:
  "stats_reg STATS_PKT_IN_REG s = Some (pkt_in s)"
  "stats_reg STATS_PHIT_IN_REG s = Some (phit_in s)"
  "stats_reg STATS_PKT_FORWD_REG s = Some (pkt_forward s)"
  "stats_reg STATS_PKT_DROP_REG s = Some (pkt_drop s)"
  by (simp_all add: stats_reg_def register_map)

lemma core_reg_read_halves:
  assumes "offset \<in> {STATS_PKT_IN_REG, STATS_PHIT_IN_REG, STATS_PKT_FORWD_REG, STATS_PKT_DROP_REG}"
  shows "core_reg_read offset s = Some (low32 (core_counter s offset)) \<and>
    core_reg_read (offset + 4) s = Some (high32 (core_counter s offset))"
  using assms by (auto simp: core_reg_read_def core_counter_def stats_reg_def register_map)

lemma core_qdma_write [simp]:
  "pci_write_reg (core_qdma bar drv) 0 bar (FILTER_BASE + offset) v s =
     (case core_reg_write offset v s of Some s' \<Rightarrow> s'
      | None \<Rightarrow> pci_write_reg drv 0 bar (FILTER_BASE + offset) v s)"
  by (simp add: core_qdma_def)

lemma core_qdma_read [simp]:
  "pci_read_reg (core_qdma bar drv) 0 bar (FILTER_BASE + offset) s =
     (case core_reg_read offset s of Some v \<Rightarrow> (v, s)
      | None \<Rightarrow> pci_read_reg drv 0 bar (FILTER_BASE + offset) s)"
  by (simp add: core_qdma_def)

lemma qdma_ok_core [simp]: "qdma_ok (core_qdma bar drv) bar' = qdma_ok drv bar'"
  by (simp add: qdma_ok_def core_qdma_def)

section \<open>The contract of the server\<close>

interpretation core_regs: filter_device "core_qdma bar drv" 0 bar core_cfg core_counter
proof unfold_locales
  fix v s
  show "core_cfg (pci_write_reg (core_qdma bar drv) 0 bar (FILTER_BASE + IPV4_ADDR_REG) v s) =
      (v, fst (snd (core_cfg s)), snd (snd (core_cfg s)))"
    "core_cfg (pci_write_reg (core_qdma bar drv) 0 bar (FILTER_BASE + UDP_PORT_REG) v s) =
      (fst (core_cfg s), ucast v, snd (snd (core_cfg s)))"
    "core_cfg (pci_write_reg (core_qdma bar drv) 0 bar (FILTER_BASE + RULE_ACTION_REG) v s) =
      (fst (core_cfg s), fst (snd (core_cfg s)), ucast v)"
    by (cases s; simp add: core_cfg_def)+
qed (simp add: core_reg_read_halves)

text \<open>The register writes of a rule as events of the core.\<close>

definition rule_events :: "u32 \<Rightarrow> u16 \<Rightarrow> RuleAction \<Rightarrow> core_event list" where
  "rule_events ip port act = [SetIpv4Addr ip, SetUdpPort port, SetAction (ucast (rule_action_num act))]"

lemma rule_writes_core:
  "rule_writes (core_qdma bar drv) (filter_mmio bar) ip port act s = core_run (rule_events ip port act) s"
proof -
  have "(ucast (ucast port :: u32) :: u16) = port"
    by (rule bit_word_eqI) (simp add: bit_simps)
  then show ?thesis by (simp add: rule_writes_def filter_mmio_def rule_events_def)
qed

lemma rule_events_run:
  "core_run (rule_events ip port act) (io, st) =
     (io\<lparr>ipv4_addr := ip, udp_port := port, action := ucast (rule_action_num act)\<rparr>, st)"
  by (simp add: rule_events_def)

text \<open>What an idle call installs after a rule.\<close>

lemma idle_after_rule:
  assumes "s_axis io = []"
  shows "core_run (rule_events ip port act @ [Call]) (io, st) =
     (io\<lparr>ipv4_addr := ip, udp_port := port, action := ucast (rule_action_num act), stats := local_stats st\<rparr>,
      st\<lparr>hash_table := ht_insert (hash_table st) ip port (rule_action_num act)\<rparr>)"
proof -
  have "(ucast (ucast (rule_action_num act) :: u8) :: u32) = rule_action_num act"
    by (cases act) simp_all
  then show ?thesis by (simp add: rule_events_run packet_filter_def call_idle assms)
qed

text \<open>The decision for a packet in terms of the bytes of its first phit.\<close>

definition wire_target :: "u8 list \<Rightarrow> u32 \<times> u16" where
  "wire_target bs = (le_word [bs ! 30, bs ! 31, bs ! 32, bs ! 33], le_word [bs ! 36, bs ! 37])"

definition wire_udp4 :: "u8 list \<Rightarrow> bool" where
  "wire_udp4 bs \<longleftrightarrow> bs ! 12 = 0x08 \<and> bs ! 13 = 0x00 \<and> bs ! 23 = 17"

lemma packet_action_wire:
  assumes "length bs = 64" and "data (hd p) = le_word bs"
  shows "packet_action h p = (if wire_udp4 bs then ht_lookup h (fst (wire_target bs)) (snd (wire_target bs)) else 0)"
  by (simp add: packet_action_def header_action_def assms wire_udp4_def wire_target_def Let_def
      wire_fields [OF assms(1)] del: le_word.simps)

text \<open>A driver with nothing else behind it, for the witnesses.\<close>

definition bare_driver :: "core qdma" where
  "bare_driver =
     \<lparr>get_device = \<lambda>_. True, dev_count_avail = 1, get_bar_details = \<lambda>_. (0, 2), strerror = \<lambda>_. [],
      pci_write_reg = \<lambda>_ _ _ _ s. s, pci_read_reg = \<lambda>_ _ _ s. (0, s)\<rparr>"

lemma qdma_ok_bare [simp]: "qdma_ok bare_driver 2"
  by (simp add: qdma_ok_def bare_driver_def)

section \<open>A rule and a packet\<close>

lemma arrive_packet: "core_run (map Arrive p) (io, st) = (io\<lparr>s_axis := s_axis io @ p\<rparr>, st)"
  by (induction p arbitrary: io) simp_all

lemma packet_through:
  assumes "wf_packet p" and "phit_idx st = 0" and "s_axis io = []"
  shows "m_axis (fst (core_run (map Arrive p @ replicate (length p) Call) (io, st))) =
    m_axis io @ (if packet_action (hash_table st) p = 1 then p else [])"
  using calls_packet [OF assms(1,2), of "io\<lparr>s_axis := p\<rparr>" "[]"] assms(3)
  by (simp add: arrive_packet)

text \<open>A rule, an idle call, then a packet.\<close>

lemma rule_then_packet:
  assumes "ht_wf (hash_table st)" and "phit_idx st = 0" and "s_axis io = []" and "wf_packet p"
    and "length bs = 64" and "data (hd p) = le_word bs" and "wire_udp4 bs"
  shows "m_axis (fst (core_run (rule_events ip port act @ Call # map Arrive p @ replicate (length p) Call) (io, st))) =
    m_axis io @ (if (if slot_of (ip, port) = slot_of (wire_target bs) then act = RULE_ACTION_FORWARD
      else ht_lookup (hash_table st) (fst (wire_target bs)) (snd (wire_target bs)) = 1) then p else [])"
proof -
  let ?st = "st\<lparr>hash_table := ht_insert (hash_table st) ip port (rule_action_num act)\<rparr>"
  let ?io = "io\<lparr>ipv4_addr := ip, udp_port := port, action := ucast (rule_action_num act), stats := local_stats st\<rparr>"
  have "core_run (rule_events ip port act @ Call # map Arrive p @ replicate (length p) Call) (io, st) =
      core_run (map Arrive p @ replicate (length p) Call) (?io, ?st)"
    using idle_after_rule [OF assms(3), of ip port act st] by simp
  moreover have "rule_action_num act = 1 \<longleftrightarrow> act = RULE_ACTION_FORWARD"
    by (cases act) simp_all
  ultimately show ?thesis
    using packet_through [OF assms(4), of ?st ?io] assms
      ht.look_ins [OF assms(1), of "(ip, port)" "rule_action_num act" "wire_target bs"]
    by (simp add: packet_action_wire)
qed

text \<open>A frame for 192.168.2.1, port 8500, in one phit, for the witnesses.\<close>

definition example_frame :: "u8 list" where
  "example_frame = replicate 12 0 @ [8, 0] @ replicate 9 0 @ [17] @ replicate 6 0 @ [192, 168, 2, 1] @
    [0, 0, 0x21, 0x34] @ replicate 26 0"

definition example_packet :: "axis_250_t list" where
  "example_packet = [\<lparr>data = le_word example_frame, keep = 0, user = 0, last_phit = True\<rparr>]"

lemma example_frame_facts:
  "length example_frame = 64" "wire_udp4 example_frame"
  "[example_frame ! 30, example_frame ! 31, example_frame ! 32, example_frame ! 33] = [192, 168, 2, 1]"
  "[example_frame ! 36, example_frame ! 37] = [0x21, 0x34]"
  by (simp_all add: wire_udp4_def nth_append example_frame_def)

lemma example_packet_facts:
  "wf_packet example_packet" "data (hd example_packet) = le_word example_frame"
  by (simp_all add: wf_packet_def example_packet_def)

lemma core_init_facts:
  "ht_wf (hash_table (snd core_init))" "phit_idx (snd core_init) = 0" "s_axis (fst core_init) = []"
  "m_axis (fst core_init) = []"
  by (simp_all add: core_init_def)

end
