(* ===== verification/Clocked_Core.thy ===== *)
theory Clocked_Core
  imports Register_File
begin

text \<open>
  The core as the server meets it: it runs on while the server writes its registers. The device
  is a core with a schedule, a list of batches of events; the next batch, which may be empty,
  happens before each register access. A schedule keeps the core busy when stream words arrive
  and the core is called, but never on an empty input.
\<close>

section \<open>The device with its schedule\<close>

definition next_batch :: "core_event list list \<times> core \<Rightarrow> core_event list list \<times> core" where
  "next_batch = (\<lambda>(batches, s). case batches of [] \<Rightarrow> ([], s) | es # rest \<Rightarrow> (rest, core_run es s))"

definition clocked_qdma :: "u32 \<Rightarrow> core qdma \<Rightarrow> (core_event list list \<times> core) qdma" where
  "clocked_qdma bar drv =
     \<lparr>get_device = get_device drv, dev_count_avail = dev_count_avail drv,
      get_bar_details = get_bar_details drv, strerror = strerror drv,
      pci_write_reg = \<lambda>port b a v d. apsnd (pci_write_reg (core_qdma bar drv) port b a v) (next_batch d),
      pci_read_reg = \<lambda>port b a d.
        (let (batches, s) = next_batch d; (v, s) = pci_read_reg (core_qdma bar drv) port b a s
         in (v, (batches, s)))\<rparr>"

lemma qdma_ok_clocked [simp]: "qdma_ok (clocked_qdma bar drv) bar' = qdma_ok drv bar'"
  by (simp add: qdma_ok_def clocked_qdma_def)

fun never_idle :: "core_event list \<Rightarrow> core \<Rightarrow> bool" where
  "never_idle [] s = True"
| "never_idle (e # es) s =
     ((case e of Arrive p \<Rightarrow> True | Call \<Rightarrow> s_axis (fst s) \<noteq> [] | _ \<Rightarrow> False) \<and> never_idle es (core_next e s))"

section \<open>A busy core\<close>

lemma never_idle_append: "never_idle (es @ es') s \<longleftrightarrow> never_idle es s \<and> never_idle es' (core_run es s)"
  by (induction es arbitrary: s) simp_all

text \<open>A busy core keeps its registers and its table.\<close>

lemma busy_call:
  assumes "s_axis (fst s) \<noteq> []"
  shows "core_cfg (core_next Call s) = core_cfg s" "hash_table (snd (core_next Call s)) = hash_table (snd s)"
    "s_axis (fst (core_next Call s)) = tl (s_axis (fst s))"
proof -
  obtain io st where s: "s = (io, st)" by (cases s)
  then obtain p rest where "s_axis io = p # rest" using assms by (cases "s_axis io") auto
  from call_busy [OF this refl refl, of st] show "core_cfg (core_next Call s) = core_cfg s"
    "hash_table (snd (core_next Call s)) = hash_table (snd s)"
    "s_axis (fst (core_next Call s)) = tl (s_axis (fst s))"
    by (simp_all add: s packet_filter_def core_cfg_def \<open>s_axis io = p # rest\<close>)
qed

lemma busy_run:
  "never_idle es s \<Longrightarrow> core_cfg (core_run es s) = core_cfg s \<and> hash_table (snd (core_run es s)) = hash_table (snd s)"
proof (induction es arbitrary: s)
  case (Cons e es)
  have "core_cfg (core_next e s) = core_cfg s \<and> hash_table (snd (core_next e s)) = hash_table (snd s)"
  proof (cases e)
    case (Arrive p)
    then show ?thesis by (cases s) (simp add: core_cfg_def)
  next
    case Call
    then show ?thesis using Cons.prems busy_call [of s] by simp
  qed (use Cons.prems in simp_all)
  with Cons show ?case by simp
qed simp

text \<open>Whether the core stays busy depends on its input alone, not on its registers.\<close>

lemma never_idle_input: "s_axis (fst s) = s_axis (fst s') \<Longrightarrow> never_idle es s \<longleftrightarrow> never_idle es s'"
proof (induction es arbitrary: s s')
  case (Cons e es)
  show ?case
  proof (cases "(case e of Arrive p \<Rightarrow> True | Call \<Rightarrow> s_axis (fst s) \<noteq> [] | _ \<Rightarrow> False)")
    case True
    then have "s_axis (fst (core_next e s)) = s_axis (fst (core_next e s'))"
      using Cons.prems busy_call(3) [of s] busy_call(3) [of s']
      by (cases e; cases s; cases s') (auto simp del: core_next.simps(5))
    from Cons.IH [OF this] Cons.prems show ?thesis by (cases e) simp_all
  next
    case False
    with Cons.prems show ?thesis by (cases e) simp_all
  qed
qed simp

text \<open>The input of the core after an event.\<close>

lemma input_after:
  "s_axis (fst (core_next (Arrive p) s)) = s_axis (fst s) @ [p]"
  "s_axis (fst (core_next (SetIpv4Addr a) s)) = s_axis (fst s)"
  "s_axis (fst (core_next (SetUdpPort u) s)) = s_axis (fst s)"
  "s_axis (fst (core_next (SetAction c) s)) = s_axis (fst s)"
  "s_axis (fst (core_next Call s)) = tl (s_axis (fst s))"
proof -
  show "s_axis (fst (core_next Call s)) = tl (s_axis (fst s))"
    using busy_call(3) [of s] by (cases s; cases "s_axis (fst s) = []") (simp_all add: packet_filter_def call_idle)
qed (cases s; simp)+

section \<open>Register writes into a busy core\<close>

text \<open>The rest of the schedule keeps the core busy, and the table is still \<open>t\<close>.\<close>

definition busy :: "toeplitz_hash \<Rightarrow> core_event list list \<times> core \<Rightarrow> bool" where
  "busy t d \<longleftrightarrow> never_idle (concat (fst d)) (snd d) \<and> hash_table (snd (snd d)) = t"

lemma next_batch_busy: "busy t d \<Longrightarrow> busy t (next_batch d) \<and> core_cfg (snd (next_batch d)) = core_cfg (snd d)"
  by (cases d; cases "fst d") (auto simp: busy_def next_batch_def never_idle_append busy_run)

lemma clocked_write:
  assumes "busy t d" and "core_reg_write offset v = (\<lambda>s. Some (core_next e s))"
    and "e \<in> {SetIpv4Addr a, SetUdpPort p, SetAction c}"
  shows "busy t (pci_write_reg (clocked_qdma bar drv) 0 bar (FILTER_BASE + offset) v d)"
    and "core_cfg (snd (pci_write_reg (clocked_qdma bar drv) 0 bar (FILTER_BASE + offset) v d)) =
      (case e of SetIpv4Addr a \<Rightarrow> (a, snd (core_cfg (snd d))) | SetUdpPort p \<Rightarrow> (fst (core_cfg (snd d)), p, snd (snd (core_cfg (snd d))))
        | SetAction c \<Rightarrow> (fst (core_cfg (snd d)), fst (snd (core_cfg (snd d))), c))"
proof -
  obtain batches io st where n: "next_batch d = (batches, (io, st))" by (metis prod.collapse)
  have w: "pci_write_reg (clocked_qdma bar drv) 0 bar (FILTER_BASE + offset) v d = (batches, core_next e (io, st))"
    by (simp add: clocked_qdma_def n assms(2))
  have i: "s_axis (fst (core_next e (io, st))) = s_axis io" "hash_table (snd (core_next e (io, st))) = hash_table st"
    using assms(3) by auto
  have "never_idle (concat batches) (core_next e (io, st)) \<longleftrightarrow> never_idle (concat batches) (io, st)"
    using i(1) by (intro never_idle_input) simp
  with next_batch_busy [OF assms(1)] i(2)
  show "busy t (pci_write_reg (clocked_qdma bar drv) 0 bar (FILTER_BASE + offset) v d)"
    by (simp add: w busy_def n)
  show "core_cfg (snd (pci_write_reg (clocked_qdma bar drv) 0 bar (FILTER_BASE + offset) v d)) =
      (case e of SetIpv4Addr a \<Rightarrow> (a, snd (core_cfg (snd d))) | SetUdpPort p \<Rightarrow> (fst (core_cfg (snd d)), p, snd (snd (core_cfg (snd d))))
        | SetAction c \<Rightarrow> (fst (core_cfg (snd d)), fst (snd (core_cfg (snd d))), c))"
    using next_batch_busy [OF assms(1)] assms(3) by (auto simp: w n core_cfg_def)
qed

lemma clocked_rule:
  assumes "busy t d"
  shows "busy t (rule_writes (clocked_qdma bar drv) (filter_mmio bar) ip port act d) \<and>
    core_cfg (snd (rule_writes (clocked_qdma bar drv) (filter_mmio bar) ip port act d)) =
      (ip, port, ucast (rule_action_num act))"
proof -
  let ?w = "\<lambda>r v d. pci_write_reg (clocked_qdma bar drv) 0 bar (FILTER_BASE + r) v d"
  have p: "(ucast (ucast port :: u32) :: u16) = port"
    by (rule bit_word_eqI) (simp add: bit_simps)
  have r: "core_reg_write IPV4_ADDR_REG ip = (\<lambda>s. Some (core_next (SetIpv4Addr ip) s))"
    "core_reg_write UDP_PORT_REG (ucast port) = (\<lambda>s. Some (core_next (SetUdpPort port) s))"
    "core_reg_write RULE_ACTION_REG (rule_action_num act) =
       (\<lambda>s. Some (core_next (SetAction (ucast (rule_action_num act))) s))"
    by (simp_all add: fun_eq_iff p)
  note w1 = clocked_write [OF assms r(1), of ip 0 0 bar drv, simplified]
  note w2 = clocked_write [OF w1(1) r(2), of 0 port 0 bar drv, simplified]
  note w3 = clocked_write [OF w2(1) r(3), of 0 0 "ucast (rule_action_num act)" bar drv, simplified]
  have m: "base_addr (filter_mmio bar) = FILTER_BASE" "port_id (filter_mmio bar) = 0" "bar_id (filter_mmio bar) = bar"
    by (simp_all add: filter_mmio_def)
  show ?thesis
    unfolding rule_writes_def m using w3 w2(2) w1(2) by simp
qed

lemma clocked_rules:
  assumes "busy t d" and "rs \<noteq> []"
  shows "busy t (fold (\<lambda>f. rule_writes (clocked_qdma bar drv) (filter_mmio bar) (ip f) (port f) act) rs d) \<and>
    core_cfg (snd (fold (\<lambda>f. rule_writes (clocked_qdma bar drv) (filter_mmio bar) (ip f) (port f) act) rs d)) =
      (ip (last rs), port (last rs), ucast (rule_action_num act))"
  using assms(2)
proof (induction rs rule: rev_induct)
  case (snoc f rs)
  have "busy t (fold (\<lambda>f. rule_writes (clocked_qdma bar drv) (filter_mmio bar) (ip f) (port f) act) rs d)"
    using snoc.IH assms(1) by (cases "rs = []") simp_all
  from clocked_rule [OF this] show ?case by simp
qed simp

text \<open>The first idle call after a busy stretch.\<close>

lemma idle_after_busy:
  assumes "busy t d" and "core_cfg (snd d) = (ip, port, c)" and "never_idle es (snd d)"
    and "s_axis (fst (core_run es (snd d))) = []"
  shows "hash_table (snd (core_next Call (core_run es (snd d)))) = ht_insert t ip port (ucast c)"
proof -
  obtain io st where s: "core_run es (snd d) = (io, st)" by (cases "core_run es (snd d)")
  with busy_run [OF assms(3)] assms(1,2) have "hash_table st = t" "core_cfg (io, st) = (ip, port, c)"
    by (simp_all add: busy_def)
  with assms(4) s show ?thesis by (simp add: packet_filter_def call_idle core_cfg_def)
qed

end
