(* ===== verification/Packet_Handler.thy ===== *)
theory Packet_Handler
  imports Sw_Effects
begin

text \<open>
  The callback of the server, \<open>network_packet_handler\<close> in \<open>main.cc\<close>, with its three printers. An
  \<open>rte_mbuf\<close> is its packet length and the memory from its data pointer to the end of its buffer;
  a load outside that memory is the fault \<open>OutOfBounds\<close>, as is a write past a local buffer.
  \<open>rte_pktmbuf_mtod_offset\<close> adds an offset to the data pointer, so its result is never null and
  the null tests behind it never succeed.
\<close>

unbundle bit_operations_syntax

record rte_mbuf =
  pkt_len :: u32
  mem :: "u8 list"

section \<open>Memory\<close>

definition load8 :: "u8 list \<Rightarrow> u64 \<Rightarrow> ('d world, u8) prog" where
  "load8 b i = (if unat i < length b then ret (b ! unat i) else raise OutOfBounds)"

definition load16 :: "u8 list \<Rightarrow> u64 \<Rightarrow> ('d world, u16) prog" where
  "load16 b i = bindp (load8 b i) (\<lambda>x. bindp (load8 b (i + 1)) (\<lambda>y. ret (le_word [x, y])))"

definition load32 :: "u8 list \<Rightarrow> u64 \<Rightarrow> ('d world, u32) prog" where
  "load32 b i = bindp (load8 b i) (\<lambda>w. bindp (load8 b (i + 1)) (\<lambda>x. bindp (load8 b (i + 2))
     (\<lambda>y. bindp (load8 b (i + 3)) (\<lambda>z. ret (le_word [w, x, y, z])))))"

text \<open>\<open>rte_be_to_cpu_16\<close> and \<open>rte_be_to_cpu_32\<close> on a little-endian host.\<close>

definition rte_be_to_cpu_16 :: "u16 \<Rightarrow> u16" where
  "rte_be_to_cpu_16 x = bswap16 x"

definition rte_be_to_cpu_32 :: "u32 \<Rightarrow> u32" where
  "rte_be_to_cpu_32 x = bswap32 x"

text \<open>\<open>sprintf\<close> of the text \<open>s\<close> into a buffer of \<open>n\<close> characters.\<close>

definition sprintf_buf :: "nat \<Rightarrow> string \<Rightarrow> ('d world, string) prog" where
  "sprintf_buf n s = (if length s + 1 \<le> n then ret s else raise OutOfBounds)"

section \<open>Numbers as text\<close>

definition hex_char :: "nat \<Rightarrow> char" where
  "hex_char d = ''0123456789abcdef'' ! d"

fun show_hex :: "nat \<Rightarrow> string" where
  "show_hex n = (if n < 16 then [hex_char n] else show_hex (n div 16) @ [hex_char (n mod 16)])"

declare show_hex.simps [simp del]

text \<open>The conversions \<open>%02hhx\<close> and \<open>%02x\<close> of a byte.\<close>

definition hex2 :: "u8 \<Rightarrow> string" where
  "hex2 b = (let s = show_hex (unat b) in if length s < 2 then CHR ''0'' # s else s)"

definition convert_mac_to_str :: "u8 list \<Rightarrow> u64 \<Rightarrow> ('d world, string) prog" where
  "convert_mac_to_str b at =
     bindp (load8 b at) (\<lambda>m0. bindp (load8 b (at + 1)) (\<lambda>m1. bindp (load8 b (at + 2)) (\<lambda>m2.
     bindp (load8 b (at + 3)) (\<lambda>m3. bindp (load8 b (at + 4)) (\<lambda>m4. bindp (load8 b (at + 5)) (\<lambda>m5.
     sprintf_buf 18 (hex2 m0 @ '':'' @ hex2 m1 @ '':'' @ hex2 m2 @ '':'' @ hex2 m3 @ '':'' @ hex2 m4
       @ '':'' @ hex2 m5)))))))"

definition convert_ip_to_str :: "u32 \<Rightarrow> ('d world, string) prog" where
  "convert_ip_to_str ipv4 =
     sprintf_buf 16 (show_nat (unat (ipv4 AND 0xFF)) @ ''.'' @ show_nat (unat (drop_bit 8 ipv4 AND 0xFF))
       @ ''.'' @ show_nat (unat (drop_bit 16 ipv4 AND 0xFF)) @ ''.''
       @ show_nat (unat (drop_bit 24 ipv4 AND 0xFF)))"

text \<open>The loop of \<open>convert_bin_to_str\<close>: \<open>i\<close> is the index, \<open>k\<close> the number of rounds left.\<close>

fun convert_bin_loop :: "u8 list \<Rightarrow> u64 \<Rightarrow> u64 \<Rightarrow> nat \<Rightarrow> string \<Rightarrow> ('d world, string) prog" where
  "convert_bin_loop b at i 0 str = ret str"
| "convert_bin_loop b at i (Suc k) str =
     bindp (load8 b (at + i)) (\<lambda>x. convert_bin_loop b at (i + 1) k (str @ take 2 (hex2 x)))"

definition convert_bin_to_str :: "u8 list \<Rightarrow> u64 \<Rightarrow> u64 \<Rightarrow> ('d world, string) prog" where
  "convert_bin_to_str b at len = convert_bin_loop b at 0 (unat len) []"

section \<open>The handler\<close>

definition RTE_ETHER_TYPE_IPV4 :: u16 where "RTE_ETHER_TYPE_IPV4 = 0x0800"
definition IPPROTO_UDP :: u8 where "IPPROTO_UDP = 17"
definition ETHER_HDR_LEN :: u64 where "ETHER_HDR_LEN = 14"
definition IPV4_HDR_LEN :: u64 where "IPV4_HDR_LEN = 20"
definition UDP_HDR_LEN :: u64 where "UDP_HDR_LEN = 8"

lemmas handler_consts =
  RTE_ETHER_TYPE_IPV4_def IPPROTO_UDP_def ETHER_HDR_LEN_def IPV4_HDR_LEN_def UDP_HDR_LEN_def

text \<open>The five lines about a received packet; \<open>eth\<close>, \<open>ip\<close>, \<open>udp\<close> and \<open>payload\<close> are offsets.\<close>

definition log_packet ::
  "u8 list \<Rightarrow> u16 \<Rightarrow> u64 \<Rightarrow> u64 \<Rightarrow> u64 \<Rightarrow> u64 \<Rightarrow> u64 \<Rightarrow> ('d world, unit) prog" where
  "log_packet b thread_id eth ip udp payload payload_len =
     thenp (log_msg INFO (''Received UDP packet on thread_id '' @ show_nat (unat thread_id)))
     (bindp (convert_mac_to_str b (eth + 6)) (\<lambda>src.
      bindp (convert_mac_to_str b eth) (\<lambda>dst.
      bindp (load16 b (eth + 12)) (\<lambda>ether_type.
      thenp (log_msg INFO (''  ether_hdr: src='' @ src @ '', dst='' @ dst @ '', ether_type=''
        @ show_hex (unat (rte_be_to_cpu_16 ether_type))))
     (bindp (load32 b (ip + 12)) (\<lambda>src_addr. bindp (convert_ip_to_str (rte_be_to_cpu_32 src_addr)) (\<lambda>src.
      bindp (load32 b (ip + 16)) (\<lambda>dst_addr. bindp (convert_ip_to_str (rte_be_to_cpu_32 dst_addr)) (\<lambda>dst.
      bindp (load16 b (ip + 2)) (\<lambda>total_length.
      bindp (load8 b (ip + 9)) (\<lambda>next_proto_id.
      thenp (log_msg INFO (''  ipv4_hdr: src='' @ src @ '', dst='' @ dst @ '', total_length=''
        @ show_nat (unat (rte_be_to_cpu_16 total_length)) @ '', next_proto_id=''
        @ show_hex (unat next_proto_id)))
     (bindp (load16 b udp) (\<lambda>src_port.
      bindp (load16 b (udp + 2)) (\<lambda>dst_port.
      bindp (load16 b (udp + 4)) (\<lambda>dgram_len.
      thenp (log_msg INFO (''  udp_hdr: src_port='' @ show_nat (unat (rte_be_to_cpu_16 src_port))
        @ '', dst_port='' @ show_nat (unat (rte_be_to_cpu_16 dst_port)) @ '', dgram_len=''
        @ show_nat (unat (rte_be_to_cpu_16 dgram_len))))
     (bindp (convert_bin_to_str b payload payload_len) (\<lambda>str.
      log_msg INFO (''  udp_payload ('' @ show_nat (unat payload_len) @ '' bytes): '' @ str))))))))))))))))))"

definition network_packet_handler :: "u16 \<Rightarrow> rte_mbuf option \<Rightarrow> ('d world, int) prog" where
  "network_packet_handler thread_id mbuf =
     (case mbuf of
        None \<Rightarrow> log_fatal ''Received null mbuf in packet handler''
      | Some m \<Rightarrow>
          (let b = mem m; pkt_len = (ucast (pkt_len m) :: u64); eth_hdr = 0 in
           bindp (load16 b (eth_hdr + 12)) (\<lambda>ether_type.
           if rte_be_to_cpu_16 ether_type \<noteq> RTE_ETHER_TYPE_IPV4 then
             thenp (log_msg DEBUG ''Non-IPv4 packet received, skipping'') (ret 0)
           else
             (let ip_hdr = eth_hdr + ETHER_HDR_LEN in
              bindp (load8 b (ip_hdr + 9)) (\<lambda>next_proto_id.
              if next_proto_id \<noteq> IPPROTO_UDP then
                thenp (log_msg DEBUG ''Non-UDP packet received, skipping'') (ret 0)
              else
                (let udp_hdr = ip_hdr + IPV4_HDR_LEN in
                 bindp (load16 b (udp_hdr + 4)) (\<lambda>dgram_len.
                 (let udp_payload_len = (ucast (rte_be_to_cpu_16 dgram_len) :: u64) in
                  if udp_hdr + udp_payload_len > pkt_len then
                    thenp (log_msg ERROR (''UDP payload length exceeds packet length ''
                      @ show_nat (unat (udp_hdr + udp_payload_len)) @ '' > '' @ show_nat (unat pkt_len)))
                    (ret (- 1))
                  else
                    (let udp_payload = udp_hdr + UDP_HDR_LEN;
                         payload_len = udp_payload_len - UDP_HDR_LEN in
                     thenp (log_packet b thread_id eth_hdr ip_hdr udp_hdr udp_payload payload_len)
                     (ret 0))))))))))"

section \<open>Loads in and out of bounds\<close>

lemma load8_in [prog_simps]: "unat i < length b \<Longrightarrow> load8 b i = ret (b ! unat i)"
  by (simp add: load8_def)

lemma load8_out: "length b \<le> unat i \<Longrightarrow> load8 b i = raise OutOfBounds"
  by (simp add: load8_def)

lemma load16_in [prog_simps]:
  "unat i < length b \<Longrightarrow> unat (i + 1) < length b \<Longrightarrow>
     load16 b i = ret (le_word [b ! unat i, b ! unat (i + 1)])"
  by (simp add: load16_def load8_in prog_then del: le_word.simps)

lemma load32_in [prog_simps]:
  "unat i < length b \<Longrightarrow> unat (i + 1) < length b \<Longrightarrow> unat (i + 2) < length b \<Longrightarrow> unat (i + 3) < length b \<Longrightarrow>
     load32 b i = ret (le_word [b ! unat i, b ! unat (i + 1), b ! unat (i + 2), b ! unat (i + 3)])"
  by (simp add: load32_def load8_in prog_then del: le_word.simps)

section \<open>The printers\<close>

lemma unat_byte: "unat (x :: u8) < 256"
proof -
  have "unat x < 2 ^ LENGTH(8)" by (rule unsigned_less)
  then show ?thesis by simp
qed

lemma length_hex2 [simp]: "length (hex2 b) = 2"
proof -
  have "unat b < 256" by (rule unat_byte)
  then have "unat b div 16 < 16" by simp
  then have "length (show_hex (unat b)) = (if unat b < 16 then 1 else 2)"
    by (subst show_hex.simps) (simp add: show_hex.simps [of "unat b div 16"])
  then show ?thesis by (simp add: hex2_def Let_def)
qed

lemma take_hex2 [simp]: "take 2 (hex2 b) = hex2 b"
  by simp

lemma length_show_nat: "n < 10 ^ Suc k \<Longrightarrow> length (show_nat n) \<le> Suc k"
proof (induction k arbitrary: n)
  case 0
  then show ?case by (simp add: show_nat.simps)
next
  case (Suc k)
  then have "n div 10 < 10 ^ Suc k" by auto
  from Suc.IH [OF this] show ?case by (subst show_nat.simps) simp
qed

text \<open>An address of six bytes, and the four numbers of an IP address as the printer orders them.\<close>

definition mac_text :: "u8 list \<Rightarrow> string" where
  "mac_text m = hex2 (m ! 0) @ '':'' @ hex2 (m ! 1) @ '':'' @ hex2 (m ! 2) @ '':'' @ hex2 (m ! 3) @ '':''
     @ hex2 (m ! 4) @ '':'' @ hex2 (m ! 5)"

definition dotted :: "u8 \<Rightarrow> u8 \<Rightarrow> u8 \<Rightarrow> u8 \<Rightarrow> string" where
  "dotted a b c d = show_nat (unat a) @ ''.'' @ show_nat (unat b) @ ''.'' @ show_nat (unat c) @ ''.''
     @ show_nat (unat d)"

lemma length_dotted: "length (dotted a b c d) \<le> 15"
proof -
  have "length (show_nat (unat x)) \<le> 3" for x :: u8
    using length_show_nat [of "unat x" 2] unat_byte [of x] by simp
  from this [of a] this [of b] this [of c] this [of d] show ?thesis by (simp add: dotted_def)
qed

lemma convert_mac_in [prog_simps]:
  assumes "unat at + 5 < length b" and "unat at < 2 ^ 32"
  shows "convert_mac_to_str b at = ret (mac_text (drop (unat at) b))"
proof -
  have u: "unat (at + of_nat k) = unat at + k" if "k < 2 ^ 32" for k
    using assms(2) that by (subst unat_add_lem [THEN iffD1]) (simp_all add: unat_of_nat)
  have "unat (at + 1) = unat at + 1" "unat (at + 2) = unat at + 2" "unat (at + 3) = unat at + 3"
    "unat (at + 4) = unat at + 4" "unat (at + 5) = unat at + 5"
    using u [of 1] u [of 2] u [of 3] u [of 4] u [of 5] by simp_all
  then show ?thesis
    using assms(1) by (simp add: convert_mac_to_str_def mac_text_def load8_in prog_then sprintf_buf_def)
qed

lemma byte_of_word:
  fixes x :: u32
  shows "unat (x AND 0xFF) = unat (ucast x :: u8)"
    and "unat (drop_bit 8 x AND 0xFF) = unat (ucast (drop_bit 8 x) :: u8)"
    and "unat (drop_bit 16 x AND 0xFF) = unat (ucast (drop_bit 16 x) :: u8)"
    and "unat (drop_bit 24 x AND 0xFF) = unat (ucast (drop_bit 24 x) :: u8)"
  by (simp_all only: byte_masks take_bit_eq_mask [symmetric] unsigned_ucast_eq unsigned_take_bit_eq) simp_all

text \<open>The bytes of a little-endian word, lowest first.\<close>

lemma byte_le_word:
  assumes "i < length bs" and "8 * Suc i \<le> LENGTH('a)"
  shows "(ucast (drop_bit (8 * i) (le_word bs :: 'a::len word)) :: u8) = bs ! i"
proof (rule bit_word_eqI)
  fix n
  assume n: "n < LENGTH(8)"
  then have "(8 * i + n) div 8 = i" "(8 * i + n) mod 8 = n" by simp_all
  then show "bit (ucast (drop_bit (8 * i) (le_word bs :: 'a word)) :: u8) n = bit (bs ! i) n"
    using n assms by (simp add: bit_ucast_iff bit_drop_bit_eq bit_le_word)
qed

lemma bytes_of_le_word:
  fixes a b c d :: u8
  defines "x \<equiv> le_word [a, b, c, d] :: u32"
  shows "(ucast x :: u8) = a" "(ucast (drop_bit 8 x) :: u8) = b" "(ucast (drop_bit 16 x) :: u8) = c"
    "(ucast (drop_bit 24 x) :: u8) = d"
  using byte_le_word [of 0 "[a, b, c, d]", where 'a = 32] byte_le_word [of 1 "[a, b, c, d]", where 'a = 32]
    byte_le_word [of 2 "[a, b, c, d]", where 'a = 32] byte_le_word [of 3 "[a, b, c, d]", where 'a = 32]
  by (simp_all add: x_def del: le_word.simps)

lemma convert_ip_run:
  "convert_ip_to_str (be_word [a, b, c, d]) = ret (dotted d c b a)"
  using length_dotted [of d c b a]
  by (simp add: convert_ip_to_str_def be_word_def byte_of_word bytes_of_le_word sprintf_buf_def
      dotted_def del: le_word.simps)

text \<open>The hexadecimal dump of the payload.\<close>

definition hex_dump :: "u8 list \<Rightarrow> string" where
  "hex_dump bs = concat (map hex2 bs)"

lemma length_hex_dump [simp]: "length (hex_dump bs) = 2 * length bs"
  by (induction bs) (simp_all add: hex_dump_def)

lemma unat_add_small:
  fixes x y :: u64
  shows "unat x + unat y < 2 ^ 64 \<Longrightarrow> unat (x + y) = unat x + unat y"
  by (subst unat_add_lem [THEN iffD1]) simp_all

lemma convert_bin_in:
  assumes "unat at + unat i + k \<le> length b" and "length b < 2 ^ 63"
  shows "convert_bin_loop b at i k str = ret (str @ hex_dump (take k (drop (unat at + unat i) b)))"
  using assms(1)
proof (induction k arbitrary: i str)
  case 0
  then show ?case by (simp add: hex_dump_def)
next
  case (Suc k)
  have a: "unat (at + i) = unat at + unat i"
    using Suc.prems assms(2) by (intro unat_add_small) simp
  have i: "unat (i + 1) = Suc (unat i)"
    using Suc.prems assms(2) unat_add_small [of i 1] by simp
  have d: "drop (unat at + unat i) b = b ! (unat at + unat i) # drop (Suc (unat at + unat i)) b"
    using Suc.prems by (intro Cons_nth_drop_Suc [symmetric]) simp
  show ?case
    using Suc.IH [of "i + 1"] Suc.prems
    by (simp add: load8_in prog_then a i d) (simp add: hex_dump_def)
qed

lemma convert_bin_out:
  assumes "length b < unat at + unat i + k" and "unat at + unat i \<le> length b" and "length b < 2 ^ 63"
  shows "convert_bin_loop b at i k str = raise OutOfBounds"
  using assms(1,2)
proof (induction k arbitrary: i str)
  case 0
  then show ?case by simp
next
  case (Suc k)
  have a: "unat (at + i) = unat at + unat i"
    using Suc.prems assms(3) by (intro unat_add_small) simp
  show ?case
  proof (cases "unat at + unat i = length b")
    case True
    then show ?thesis by (simp add: load8_out a prog_then)
  next
    case False
    have i: "unat (i + 1) = Suc (unat i)"
      using Suc.prems assms(3) unat_add_small [of i 1] by simp
    show ?thesis
      using Suc.IH [of "i + 1"] Suc.prems False by (simp add: load8_in prog_then a i)
  qed
qed

section \<open>What the handler reports\<close>

definition wire16 :: "u8 list \<Rightarrow> nat \<Rightarrow> u16" where
  "wire16 b i = be_word [b ! i, b ! (i + 1)]"

definition packet_lines :: "u8 list \<Rightarrow> u16 \<Rightarrow> nat \<Rightarrow> (Level \<times> string) list" where
  "packet_lines b thread_id n =
     [(INFO, ''Received UDP packet on thread_id '' @ show_nat (unat thread_id)),
      (INFO, ''  ether_hdr: src='' @ mac_text (drop 6 b) @ '', dst='' @ mac_text b @ '', ether_type=''
        @ show_hex (unat (wire16 b 12))),
      (INFO, ''  ipv4_hdr: src='' @ dotted (b ! 29) (b ! 28) (b ! 27) (b ! 26) @ '', dst=''
        @ dotted (b ! 33) (b ! 32) (b ! 31) (b ! 30) @ '', total_length='' @ show_nat (unat (wire16 b 16))
        @ '', next_proto_id='' @ show_hex (unat (b ! 23))),
      (INFO, ''  udp_hdr: src_port='' @ show_nat (unat (wire16 b 34)) @ '', dst_port=''
        @ show_nat (unat (wire16 b 36)) @ '', dgram_len='' @ show_nat (unat (wire16 b 38))),
      (INFO, ''  udp_payload ('' @ show_nat n @ '' bytes): '' @ hex_dump (take n (drop 42 b)))]"

lemma swap_loads:
  "rte_be_to_cpu_16 (le_word [x, y]) = be_word [x, y]"
  "rte_be_to_cpu_32 (le_word [x, y, z, v]) = be_word [x, y, z, v]"
  by (simp_all only: rte_be_to_cpu_16_def rte_be_to_cpu_32_def bswap16_le_word bswap32_le_word)

lemma log_packet_run:
  assumes "42 \<le> length b"
  shows "log_packet b thread_id 0 14 34 42 len w =
     thenp (modifyp (\<lambda>w. w\<lparr>log_lines := log_lines w @ butlast (packet_lines b thread_id 0)\<rparr>))
       (bindp (convert_bin_to_str b 42 len) (\<lambda>str.
        log_msg INFO (''  udp_payload ('' @ show_nat (unat len) @ '' bytes): '' @ str))) w"
  using assms
  by (simp add: log_packet_def load8_in load16_in load32_in convert_mac_in swap_loads convert_ip_run prog_then
      log_then packet_lines_def wire16_def del: le_word.simps)

lemma payload_in:
  fixes w :: "'d world"
  assumes "42 + unat len \<le> length b" and "length b < 2 ^ 63"
  shows "log_packet b thread_id 0 14 34 42 len w =
     (Inr (), w\<lparr>log_lines := log_lines w @ packet_lines b thread_id (unat len)\<rparr>)"
proof -
  have "convert_bin_to_str b 42 len = (ret (hex_dump (take (unat len) (drop 42 b))) :: ('d world, string) prog)"
    using assms by (simp add: convert_bin_to_str_def convert_bin_in)
  then show ?thesis
    using assms by (simp add: log_packet_run prog_then log_msg_run packet_lines_def)
qed

lemma payload_out:
  fixes w :: "'d world"
  assumes "length b < 42 + unat len" and "42 \<le> length b" and "length b < 2 ^ 63"
  shows "log_packet b thread_id 0 14 34 42 len w =
     (Inl OutOfBounds, w\<lparr>log_lines := log_lines w @ butlast (packet_lines b thread_id 0)\<rparr>)"
proof -
  have "convert_bin_to_str b 42 len = (raise OutOfBounds :: ('d world, string) prog)"
    using assms by (simp add: convert_bin_to_str_def convert_bin_out)
  then show ?thesis
    using assms by (simp add: log_packet_run prog_then raise_run)
qed

text \<open>The handler by the tests it makes, on a buffer that holds the three headers.\<close>

definition too_long :: "rte_mbuf \<Rightarrow> bool" where
  "too_long m \<longleftrightarrow> unat (pkt_len m) < 34 + unat (wire16 (mem m) 38)"

lemma handler_run:
  assumes "42 \<le> length (mem m)"
  shows "network_packet_handler thread_id (Some m) w =
    (if wire16 (mem m) 12 \<noteq> 0x0800 then
       (Inr 0, w\<lparr>log_lines := log_lines w @ [(DEBUG, ''Non-IPv4 packet received, skipping'')]\<rparr>)
     else if mem m ! 23 \<noteq> 17 then
       (Inr 0, w\<lparr>log_lines := log_lines w @ [(DEBUG, ''Non-UDP packet received, skipping'')]\<rparr>)
     else if too_long m then
       (Inr (- 1), w\<lparr>log_lines := log_lines w @ [(ERROR, ''UDP payload length exceeds packet length ''
          @ show_nat (34 + unat (wire16 (mem m) 38)) @ '' > '' @ show_nat (unat (pkt_len m)))]\<rparr>)
     else thenp (log_packet (mem m) thread_id 0 14 34 42 (ucast (wire16 (mem m) 38) - 8)) (ret 0) w)"
proof -
  have u: "unat (34 + ucast (wire16 (mem m) 38) :: u64) = 34 + unat (wire16 (mem m) 38)"
    "unat (ucast (pkt_len m) :: u64) = unat (pkt_len m)"
  proof -
    have "unat (wire16 (mem m) 38) < 2 ^ LENGTH(16)" by (rule unsigned_less)
    then show "unat (34 + ucast (wire16 (mem m) 38) :: u64) = 34 + unat (wire16 (mem m) 38)"
      by (subst unat_add_small) (simp_all add: unsigned_ucast_eq take_bit_nat_eq_self)
    have "unat (pkt_len m) < 2 ^ LENGTH(32)" by (rule unsigned_less)
    then show "unat (ucast (pkt_len m) :: u64) = unat (pkt_len m)"
      by (simp add: unsigned_ucast_eq take_bit_nat_eq_self)
  qed
  have t: "34 + ucast (wire16 (mem m) 38) > (ucast (pkt_len m) :: u64) \<longleftrightarrow> too_long m"
    by (simp only: word_less_nat_alt u too_long_def)
  have f: "be_word [mem m ! 12, mem m ! 13] = wire16 (mem m) 12"
    "be_word [mem m ! 38, mem m ! 39] = wire16 (mem m) 38"
    by (simp_all add: wire16_def)
  show ?thesis
    using assms
    by (simp add: network_packet_handler_def handler_consts load8_in load16_in swap_loads f
        t u prog_then log_then ret_run Let_def del: le_word.simps)
qed

lemma payload_len_unat:
  fixes d :: u16
  shows "unat (ucast d - 8 :: u64) = (if 8 \<le> unat d then unat d - 8 else unat d + (2 ^ 64 - 8))"
proof -
  have u: "unat (ucast d :: u64) = unat d"
  proof -
    have "unat d < 2 ^ LENGTH(16)" by (rule unsigned_less)
    then show ?thesis by (simp add: unsigned_ucast_eq take_bit_nat_eq_self)
  qed
  show ?thesis
    by (simp only: unat_sub_if' u) (simp add: u word_le_nat_alt)
qed

section \<open>Properties\<close>

text \<open>A buffer with one UDP packet of \<open>length p\<close> payload bytes and \<open>d\<close> as its length field, for the
  witnesses.\<close>

definition example_mbuf :: "u8 \<Rightarrow> u8 list \<Rightarrow> rte_mbuf" where
  "example_mbuf d p =
     \<lparr>pkt_len = of_nat (42 + length p),
      mem = replicate 12 0 @ [8, 0] @ replicate 9 0 @ [17] @ replicate 6 0 @ [192, 168, 2, 1] @
        [0, 0, 0x21, 0x34, 0, d, 0, 0] @ p\<rparr>"

lemma example_mbuf_facts:
  "length (mem (example_mbuf d p)) = 42 + length p" "wire16 (mem (example_mbuf d p)) 12 = 0x0800"
  "mem (example_mbuf d p) ! 23 = 17" "wire16 (mem (example_mbuf d p)) 38 = ucast d"
  "pkt_len (example_mbuf d p) = of_nat (42 + length p)"
  by (simp_all add: example_mbuf_def wire16_def be_word_def nth_append)

text \<open>A buffer with \<open>n\<close> payload bytes, for a length beyond one byte.\<close>

definition big_mbuf :: "nat \<Rightarrow> rte_mbuf" where
  "big_mbuf n =
     \<lparr>pkt_len = of_nat (42 + n),
      mem = replicate 12 0 @ [8, 0] @ replicate 9 0 @ [17] @ replicate 14 0 @
        [of_nat ((n + 8) div 256), of_nat ((n + 8) mod 256), 0, 0] @ replicate n 0\<rparr>"

lemma big_mbuf_facts:
  "length (mem (big_mbuf n)) = 42 + n" "wire16 (mem (big_mbuf n)) 12 = 0x0800" "mem (big_mbuf n) ! 23 = 17"
  "wire16 (mem (big_mbuf 2048)) 38 = 2056" "pkt_len (big_mbuf n) = of_nat (42 + n)"
  by (simp_all add: big_mbuf_def wire16_def be_word_def nth_append)

text \<open>The lines of an accepted packet, and how long they are.\<close>

lemma accepted_run:
  assumes "wire16 (mem m) 12 = 0x0800" and "mem m ! 23 = 17" and "8 \<le> unat (wire16 (mem m) 38)"
    and "34 + unat (wire16 (mem m) 38) \<le> unat (pkt_len m)" and "unat (pkt_len m) \<le> length (mem m)"
    and "length (mem m) < 2 ^ 63"
  shows "network_packet_handler thread_id (Some m) w =
    (Inr 0, w\<lparr>log_lines := log_lines w @ packet_lines (mem m) thread_id (unat (wire16 (mem m) 38) - 8)\<rparr>)"
proof -
  have n: "unat (ucast (wire16 (mem m) 38) - 8 :: u64) = unat (wire16 (mem m) 38) - 8"
    using assms(3) payload_len_unat [of "wire16 (mem m) 38"] by simp
  show ?thesis
    using assms by (simp add: handler_run too_long_def thenp_run(2) [OF payload_in] n ret_run)
qed

lemma length_show_hex: "n < 16 ^ Suc k \<Longrightarrow> length (show_hex n) \<le> Suc k"
proof (induction k arbitrary: n)
  case 0
  then show ?case by (simp add: show_hex.simps)
next
  case (Suc k)
  then have "n div 16 < 16 ^ Suc k" by auto
  from Suc.IH [OF this] show ?case by (subst show_hex.simps) simp
qed

lemma packet_lines_short:
  assumes "n \<le> 1472" and "42 + n \<le> length b"
  shows "list_all (\<lambda>(l, msg). l = INFO \<and> length msg \<le> 3000) (packet_lines b thread_id n)"
proof -
  have w: "unat x < 65536" for x :: u16
  proof -
    have "unat x < 2 ^ LENGTH(16)" by (rule unsigned_less)
    then show ?thesis by simp
  qed
  have d: "length (show_nat (unat x)) \<le> 5" for x :: u16
    using length_show_nat [of "unat x" 4] w [of x] by simp
  have h: "length (show_hex (unat x)) \<le> 4" for x :: u16
    using length_show_hex [of "unat x" 3] w [of x] by simp
  have h8: "length (show_hex (unat x)) \<le> 2" for x :: u8
    using length_show_hex [of "unat x" 1] unat_byte [of x] by simp
  have n: "length (show_nat n) \<le> 5" using length_show_nat [of n 4] assms(1) by simp
  have m: "length (mac_text x) = 17" for x by (simp add: mac_text_def)
  show ?thesis
    using d [of thread_id] h [of "wire16 b 12"] h8 [of "b ! 23"] d [of "wire16 b 16"] d [of "wire16 b 34"]
      d [of "wire16 b 36"] d [of "wire16 b 38"] n assms
      length_dotted [of "b ! 29" "b ! 28" "b ! 27" "b ! 26"] length_dotted [of "b ! 33" "b ! 32" "b ! 31" "b ! 30"]
    by (simp add: packet_lines_def m)
qed

text \<open>C11: A well-formed UDP packet is accepted, and its five lines are logged: the addresses, the
  lengths and ports of its headers in host order, and exactly the bytes of its payload in
  hexadecimal.\<close>

theorem handler_reports:
  assumes "wire16 (mem m) 12 = 0x0800" and "mem m ! 23 = 17" and "8 \<le> unat (wire16 (mem m) 38)"
    and "34 + unat (wire16 (mem m) 38) \<le> unat (pkt_len m)" and "unat (pkt_len m) \<le> length (mem m)"
    and "length (mem m) < 2 ^ 63"
  shows "network_packet_handler thread_id (Some m) w =
    (Inr 0, w\<lparr>log_lines := log_lines w @ packet_lines (mem m) thread_id (unat (wire16 (mem m) 38) - 8)\<rparr>)"
  by (rule accepted_run [OF assms])

theorem handler_reports_witness:
  "fst (network_packet_handler 0 (Some (example_mbuf 10 [0xDE, 0xAD])) \<lparr>device = (), log_lines = []\<rparr>) = Inr 0"
  using handler_reports [of "example_mbuf 10 [0xDE, 0xAD]" 0 "\<lparr>device = (), log_lines = []\<rparr>"] by (simp add: example_mbuf_facts)

text \<open>C10: The outcome of the handler for every packet in a single buffer: other protocols are
  skipped with 0, a datagram longer than the packet is refused with -1, and a datagram length
  below the 8 bytes of its own header passes the size check, wraps the payload length around and
  makes the dump run out of the buffer.\<close>

theorem handler_outcome:
  assumes "42 \<le> length (mem m)" and "unat (pkt_len m) \<le> length (mem m)" and "length (mem m) < 2 ^ 63"
  shows "fst (network_packet_handler thread_id (Some m) w) =
    (if wire16 (mem m) 12 \<noteq> 0x0800 \<or> mem m ! 23 \<noteq> 17 then Inr 0
     else if unat (pkt_len m) < 34 + unat (wire16 (mem m) 38) then Inr (- 1)
     else if unat (wire16 (mem m) 38) < 8 then Inl OutOfBounds else Inr 0)"
proof (cases "unat (wire16 (mem m) 38) < 8")
  case True
  then have "length (mem m) < 42 + unat (ucast (wire16 (mem m) 38) - 8 :: u64)"
    using assms(3) payload_len_unat [of "wire16 (mem m) 38"] by simp
  with True show ?thesis
    using assms by (simp add: handler_run too_long_def thenp_run(1) [OF payload_out])
next
  case False
  then have n: "unat (ucast (wire16 (mem m) 38) - 8 :: u64) = unat (wire16 (mem m) 38) - 8"
    using payload_len_unat [of "wire16 (mem m) 38"] by simp
  show ?thesis
    using assms False
    by (simp add: handler_run too_long_def thenp_run(2) [OF payload_in] n ret_run)
qed

theorem handler_outcome_witness:
  "fst (network_packet_handler 0 (Some (example_mbuf 7 [0xDE, 0xAD])) \<lparr>device = (), log_lines = []\<rparr>) =
     Inl OutOfBounds"
  using handler_outcome [of "example_mbuf 7 [0xDE, 0xAD]" 0 "\<lparr>device = (), log_lines = []\<rparr>"] by (simp add: example_mbuf_facts)

text \<open>C29: The lines about an accepted packet fit the line buffer of the logger for every payload of
  an untagged Ethernet frame (up to 1472 bytes); from 2048 bytes on the last one, which the
  handler makes as long as the payload, overflows it.\<close>

theorem payload_line_overflow:
  assumes "wire16 (mem m) 12 = 0x0800" and "mem m ! 23 = 17" and "8 \<le> unat (wire16 (mem m) 38)"
    and "34 + unat (wire16 (mem m) 38) \<le> unat (pkt_len m)" and "unat (pkt_len m) \<le> length (mem m)"
    and "length (mem m) < 2 ^ 63"
    and "tm_ok t usec" and "INFO \<le> log_level st" and "fp_s st \<noteq> None"
    and "length file \<le> 100" and "line < 10000"
  shows "let n = unat (wire16 (mem m) 38) - 8;
      lines = log_lines (snd (network_packet_handler thread_id (Some m) \<lparr>device = dev, log_lines = []\<rparr>)) in
    (n \<le> 1472 \<longrightarrow> list_all (\<lambda>(l, msg). log_log t usec l line file msg st \<noteq> None) lines) \<and>
    (2048 \<le> n \<longrightarrow> log_log t usec (fst (last lines)) line file (snd (last lines)) st = None)"
proof -
  let ?n = "unat (wire16 (mem m) 38) - 8"
  have "unat (wire16 (mem m) 38) < 2 ^ LENGTH(16)" by (rule unsigned_less)
  then have n: "?n < 2 ^ 16" by simp
  have b: "42 + ?n \<le> length (mem m)" using assms(3-5) by linarith
  have l: "length (show_nat ?n) \<le> 5" "length (show_nat line) \<le> 4"
    using n assms(11) length_show_nat [of ?n 4] length_show_nat [of line 3] by simp_all
  have p: "length (log_prefix t usec INFO line file) = 32 + length file + length (show_nat line)"
    by (simp add: log_prefix_def)
  have i: "log_log t usec INFO line file msg st = None \<longleftrightarrow>
      LOG_BUF_SIZE < length (log_prefix t usec INFO line file @ msg) \<and> length msg < 2 ^ 31" for msg
    using assms(10) l(2) p by (intro log_log_none_iff [OF assms(7,8) _ assms(9)]) (simp add: LOG_BUF_SIZE_def)
  have fits: "log_log t usec INFO line file msg st \<noteq> None" if "length msg \<le> 3000" for msg
    using that assms(10) l(2) p by (simp add: i LOG_BUF_SIZE_def)
  have lines: "log_lines (snd (network_packet_handler thread_id (Some m) \<lparr>device = dev, log_lines = []\<rparr>)) =
      packet_lines (mem m) thread_id ?n"
    using accepted_run [OF assms(1-6), of thread_id "\<lparr>device = dev, log_lines = []\<rparr>"] by simp
  have last: "last (packet_lines (mem m) thread_id ?n) =
      (INFO, ''  udp_payload ('' @ show_nat ?n @ '' bytes): '' @ hex_dump (take ?n (drop 42 (mem m))))"
    by (simp add: packet_lines_def)
  have len: "length (''  udp_payload ('' @ show_nat ?n @ '' bytes): '' @ hex_dump (take ?n (drop 42 (mem m)))) =
      24 + length (show_nat ?n) + 2 * ?n"
    using b by simp
  have "?n \<le> 1472 \<Longrightarrow> list_all (\<lambda>(l, msg). l = INFO \<and> length msg \<le> 3000) (packet_lines (mem m) thread_id ?n)"
    using l(1) b by (intro packet_lines_short) simp_all
  then have "?n \<le> 1472 \<Longrightarrow> list_all (\<lambda>(l, msg). log_log t usec l line file msg st \<noteq> None)
      (packet_lines (mem m) thread_id ?n)"
    using fits by (auto simp: list_all_iff)
  moreover have "2048 \<le> ?n \<Longrightarrow> log_log t usec INFO line file (''  udp_payload ('' @ show_nat ?n @ '' bytes): ''
      @ hex_dump (take ?n (drop 42 (mem m)))) st = None"
    unfolding i using n p l(1) len by (simp only: length_append [of "log_prefix _ _ _ _ _"] LOG_BUF_SIZE_def) (intro conjI; simp)
  ultimately show ?thesis by (simp only: lines last Let_def fst_conv snd_conv) blast
qed

theorem payload_line_overflow_witness:
  "\<exists>ls. snd (network_packet_handler 0 (Some (big_mbuf 2048)) \<lparr>device = (), log_lines = []\<rparr>) =
      \<lparr>device = (), log_lines = ls\<rparr> \<and>
    log_log \<lparr>tm_year = 125, tm_mon = 8, tm_mday = 3, tm_hour = 4, tm_min = 59, tm_sec = 0\<rparr> 7000 (fst (last ls)) 202
      ''src/main.cc'' (snd (last ls)) log_initial = None"
proof -
  note p = payload_line_overflow [of "big_mbuf 2048"
      "\<lparr>tm_year = 125, tm_mon = 8, tm_mday = 3, tm_hour = 4, tm_min = 59, tm_sec = 0\<rparr>" 7000 log_initial
      "''src/main.cc''" 202 0 "()"]
  show ?thesis
    using p by (intro exI conjI)
      (auto simp: Let_def big_mbuf_facts tm_ok_def log_initial_def less_eq_Level_def intro: world.equality)
qed

end
