(* ===== verification/Address_Text.thy ===== *)
theory Address_Text
  imports Filter_Rules Packet_Handler
begin

text \<open>
  The two ways of the server with an IPv4 address as text: the rules it reads and the reports it
  prints. An address of the packet is four bytes, and \<open>le_word\<close> of them is the number that
  \<open>inet_addr\<close> gives for their dotted decimal text, in the order of the bytes.
\<close>

section \<open>Reading what was printed\<close>

lemma split_on_field:
  "c \<notin> set w \<Longrightarrow> split_on c w = [w]"
  "c \<notin> set w \<Longrightarrow> split_on c (w @ c # rest) = w # split_on c rest"
  by (induction w) auto

lemma show_nat_no_dot: "CHR ''.'' \<notin> set (show_nat n)"
proof
  assume "CHR ''.'' \<in> set (show_nat n)"
  then have "isdigit (CHR ''.'')" using show_nat_digits [of n] by (simp add: list_all_iff)
  then show False by (simp add: isdigit_def)
qed

lemma decimal_byte_show: "decimal_byte (show_nat (unat b)) = Some b"
proof -
  have "int (unat b) < 256" using unat_byte [of b] by linarith
  then show ?thesis using show_nat_digits [of "unat b"] by (simp add: decimal_byte_def)
qed

lemma dotted_addr_dotted: "dotted_addr (dotted a b c d) = le_word [a, b, c, d]"
proof -
  have "split_on (CHR ''.'') (dotted a b c d) =
      [show_nat (unat a), show_nat (unat b), show_nat (unat c), show_nat (unat d)]"
    by (simp add: dotted_def split_on_field show_nat_no_dot)
  then show ?thesis by (simp add: dotted_addr_def decimal_byte_show del: le_word.simps)
qed

lemma le_word_eq_iff:
  "(le_word [a, b, c, d] :: u32) = le_word [a', b', c', d'] \<longleftrightarrow> a = a' \<and> b = b' \<and> c = c' \<and> d = d'"
  using bytes_of_le_word [of a b c d] bytes_of_le_word [of a' b' c' d'] by metis

section \<open>Properties\<close>

text \<open>C30: The handler prints the addresses of a packet backwards: read back as \<open>inet_addr\<close> reads
  the rules, the source and the destination it reports are the addresses of the packet with their
  bytes reversed, so that a rule copied from a report selects another host, unless the four bytes
  are a palindrome.\<close>

theorem handler_ip_reversed:
  assumes "wire16 (mem m) 12 = 0x0800" and "mem m ! 23 = 17" and "8 \<le> unat (wire16 (mem m) 38)"
    and "34 + unat (wire16 (mem m) 38) \<le> unat (pkt_len m)" and "unat (pkt_len m) \<le> length (mem m)"
    and "length (mem m) < 2 ^ 63"
  shows "\<exists>src dst rest.
    log_lines (snd (network_packet_handler thread_id (Some m) w)) ! (length (log_lines w) + 2) =
      (INFO, ''  ipv4_hdr: src='' @ src @ '', dst='' @ dst @ '', total_length='' @ rest) \<and>
    dotted_addr src = le_word [mem m ! 29, mem m ! 28, mem m ! 27, mem m ! 26] \<and>
    dotted_addr dst = le_word [mem m ! 33, mem m ! 32, mem m ! 31, mem m ! 30] \<and>
    (dotted_addr dst = le_word [mem m ! 30, mem m ! 31, mem m ! 32, mem m ! 33] \<longleftrightarrow>
       mem m ! 30 = mem m ! 33 \<and> mem m ! 31 = mem m ! 32)"
proof (intro exI conjI)
  show "log_lines (snd (network_packet_handler thread_id (Some m) w)) ! (length (log_lines w) + 2) =
      (INFO, ''  ipv4_hdr: src='' @ dotted (mem m ! 29) (mem m ! 28) (mem m ! 27) (mem m ! 26) @ '', dst=''
        @ dotted (mem m ! 33) (mem m ! 32) (mem m ! 31) (mem m ! 30) @ '', total_length=''
        @ show_nat (unat (wire16 (mem m) 16)) @ '', next_proto_id='' @ show_hex (unat (mem m ! 23)))"
    by (simp add: accepted_run [OF assms] packet_lines_def nth_append)
qed (auto simp: dotted_addr_dotted le_word_eq_iff simp del: le_word.simps)

theorem handler_ip_reversed_witness:
  "\<exists>src dst rest.
    log_lines (snd (network_packet_handler 0 (Some (example_mbuf 10 [0xDE, 0xAD])) \<lparr>device = (), log_lines = []\<rparr>)) ! 2 =
      (INFO, ''  ipv4_hdr: src='' @ src @ '', dst='' @ dst @ '', total_length='' @ rest) \<and>
    dotted_addr dst \<noteq> dotted_addr ''192.168.2.1''"
proof -
  let ?m = "example_mbuf 10 [0xDE, 0xAD]"
  have b: "mem ?m ! 30 = 192" "mem ?m ! 31 = 168" "mem ?m ! 32 = 2" "mem ?m ! 33 = 1"
    by (simp_all add: example_mbuf_def nth_append)
  have "dotted_addr ''192.168.2.1'' = le_word [192, 168, 2, 1]" by (simp add: example_addr)
  moreover obtain src dst rest where
    "log_lines (snd (network_packet_handler 0 (Some ?m) \<lparr>device = (), log_lines = []\<rparr>)) ! 2 =
      (INFO, ''  ipv4_hdr: src='' @ src @ '', dst='' @ dst @ '', total_length='' @ rest)"
    "dotted_addr dst = le_word [192, 168, 2, 1] \<longleftrightarrow> (192 :: u8) = 1 \<and> (168 :: u8) = 2"
    using handler_ip_reversed [of ?m 0 "\<lparr>device = (), log_lines = []\<rparr>"]
    by (simp only: example_mbuf_facts b world.select_convs list.size add_0) (simp, blast)
  ultimately show ?thesis by (intro exI conjI) auto
qed

end
