(* ===== verification/Dpdk_Init.thy ===== *)
theory Dpdk_Init
  imports Sw_Effects "HOL-Library.Sublist"
begin

text \<open>
  The initialisation of the class \<open>DPDK\<close> (\<open>dpdk.h\<close>, \<open>dpdk.cc\<close>): the splitting of the EAL
  arguments, the number of threads, the memory pools, the ports with their queues, the table of
  threads and the launch of the receive loops, and its destructor. DPDK is not part of the repository: the state
  keeps the history of the calls made to it, and the parameter \<open>eal\<close> gives the result of a call
  after a history (the return value and the value of an out parameter) and the error texts.
\<close>

section \<open>Calls to DPDK\<close>

record thread_info =
  tport_id :: u16
  tqueue_id :: u16
  tthread_id :: u16

datatype eal_call =
    EalInit "string list"
  | DevCountAvail
  | PoolCreate string nat nat
  | IsValidPort u16
  | DevInfoGet u16
  | DevConfigure u16 nat
  | AdjustDesc u16 u16 u16
  | RxQueueSetup u16 nat u16 nat int
  | DevStart u16
  | StatsReset u16
  | NotifyInit
  | RemoteLaunch "thread_info option" u16
  | RxLoop "thread_info option"
  | MainJoin
  | WaitLcore
  | DevStop u16
  | DevClose u16
  | EalCleanup

record eal =
  respond :: "eal_call list \<Rightarrow> eal_call \<Rightarrow> int \<times> u16"
  err_text :: "int \<Rightarrow> string"

type_synonym 'a eal_prog = "(eal_call list world, 'a) prog"

definition eal_call :: "eal \<Rightarrow> eal_call \<Rightarrow> (int \<times> u16) eal_prog" where
  "eal_call e c = (\<lambda>w. (Inr (respond e (device w) c), w\<lparr>device := device w @ [c]\<rparr>))"

section \<open>The object\<close>

record dpdk =
  port_num :: u16
  mbuf_pools :: "int list"
  thread_infos :: "thread_info option list"
  force_quit :: bool

definition DPDK_MAX_MBUFS :: nat where "DPDK_MAX_MBUFS = 8192"
definition DPDK_MBUF_CACHE_SIZE :: nat where "DPDK_MBUF_CACHE_SIZE = 250"
definition DPDK_DESC_RING_SIZE :: u16 where "DPDK_DESC_RING_SIZE = 2048"
definition DPDK_WRITEBACK_THRESH :: nat where "DPDK_WRITEBACK_THRESH = 64"

text \<open>\<open>strtok\<close> with the delimiter blank, until it returns null.\<close>

function strtok_all :: "string \<Rightarrow> string list" where
  "strtok_all s =
     (let t = dropWhile (\<lambda>c. c = CHR '' '') s in
      if t = [] then []
      else takeWhile (\<lambda>c. c \<noteq> CHR '' '') t # strtok_all (dropWhile (\<lambda>c. c \<noteq> CHR '' '') t))"
  by pat_completeness auto
termination
proof (relation "measure length")
  fix s t :: string
  assume t: "t = dropWhile (\<lambda>c. c = CHR '' '') s" "t \<noteq> []"
  then obtain c r where r: "t = c # r" "c \<noteq> CHR '' ''"
    by (metis (full_types) dropWhile_eq_Cons_conv neq_Nil_conv)
  then have "length (dropWhile (\<lambda>c. c \<noteq> CHR '' '') t) \<le> length r"
    using length_dropWhile_le [of "\<lambda>c. c \<noteq> CHR '' ''" r] by simp
  also have "\<dots> < length t" using r by simp
  also have "\<dots> \<le> length s" using t(1) by (simp add: length_dropWhile_le)
  finally show "(dropWhile (\<lambda>c. c \<noteq> CHR '' '') t, s) \<in> measure length" by simp
qed simp

declare strtok_all.simps [simp del]

text \<open>The number of threads: \<open>num_threads\<close> is an \<open>int\<close> that the program takes from a \<open>uint16_t\<close>, so
  that the product does not leave the range of \<open>int\<close>; the result is a \<open>uint16_t\<close>.\<close>

definition adjust_threads :: "int \<Rightarrow> u16 \<Rightarrow> u16" where
  "adjust_threads num_threads ports =
     (if num_threads smod int (unat ports) \<noteq> 0
      then word_of_int ((num_threads sdiv int (unat ports) + 1) * int (unat ports))
      else word_of_int num_threads)"

section \<open>One port\<close>

definition fail_msg :: "string \<Rightarrow> int eal_prog" where
  "fail_msg msg = thenp (log_msg ERROR msg) (ret (- 1))"

primrec setup_queues :: "eal \<Rightarrow> dpdk \<Rightarrow> u16 \<Rightarrow> nat \<Rightarrow> u16 \<Rightarrow> nat list \<Rightarrow> int eal_prog" where
  "setup_queues e d port_id queue_num rx_rings [] = ret 0"
| "setup_queues e d port_id queue_num rx_rings (q # qs) =
     (let thread_id = unat (of_nat (unat port_id * queue_num + q) :: u16) in
      if thread_id < length (mbuf_pools d) then
        bindp (eal_call e (RxQueueSetup port_id q rx_rings DPDK_WRITEBACK_THRESH (mbuf_pools d ! thread_id)))
        (\<lambda>(r, _). if r < 0 then
           fail_msg (''Failed to setup RX queue '' @ show_nat q @ '' for port '' @ show_nat (unat port_id)
             @ '': '' @ err_text e (- r))
         else setup_queues e d port_id queue_num rx_rings qs)
      else raise OutOfBounds)"

definition port_init :: "eal \<Rightarrow> dpdk \<Rightarrow> u16 \<Rightarrow> int eal_prog" where
  "port_init e d port_id =
     bindp (eal_call e (IsValidPort port_id)) (\<lambda>(v, _).
     if v = 0 then fail_msg (''Invalid port id '' @ show_nat (unat port_id)) else
     bindp (eal_call e (DevInfoGet port_id)) (\<lambda>(r, _).
     if r < 0 then fail_msg (''Failed to get device info for port '' @ show_nat (unat port_id)
       @ '': '' @ err_text e (- r)) else
     (let queue_num = length (thread_infos d) div unat (port_num d) in
      bindp (eal_call e (DevConfigure port_id queue_num)) (\<lambda>(r, _).
      if r < 0 then fail_msg (''Failed to configure port '' @ show_nat (unat port_id)
        @ '': '' @ err_text e (- r)) else
      bindp (eal_call e (AdjustDesc port_id DPDK_DESC_RING_SIZE 0)) (\<lambda>(r, rx_rings).
      if r < 0 then fail_msg (''Failed to adjust number of descriptors for port ''
        @ show_nat (unat port_id) @ '': '' @ err_text e (- r)) else
      bindp (setup_queues e d port_id queue_num rx_rings [0..<queue_num]) (\<lambda>r.
      if r < 0 then ret (- 1) else
      bindp (eal_call e (DevStart port_id)) (\<lambda>(r, _).
      if r < 0 then fail_msg (''Failed to start port '' @ show_nat (unat port_id)
        @ '': '' @ err_text e (- r)) else
      bindp (eal_call e (StatsReset port_id)) (\<lambda>(r, _).
      if r < 0 then fail_msg (''Failed to reset stats for port '' @ show_nat (unat port_id)
        @ '': '' @ err_text e (- r)) else
      ret 0))))))))"

section \<open>The whole initialisation\<close>

text \<open>Entering the threads of a port into the table.\<close>

definition thread_of :: "u16 \<Rightarrow> nat \<Rightarrow> nat \<Rightarrow> thread_info" where
  "thread_of port_id queue_num q =
     \<lparr>tport_id = port_id, tqueue_id = of_nat q, tthread_id = of_nat (unat port_id * queue_num + q)\<rparr>"

definition enter_threads :: "u16 \<Rightarrow> nat \<Rightarrow> dpdk \<Rightarrow> dpdk" where
  "enter_threads port_id queue_num d =
     fold (\<lambda>q d. d\<lparr>thread_infos := (thread_infos d)
         [unat (tthread_id (thread_of port_id queue_num q)) := Some (thread_of port_id queue_num q)]\<rparr>)
       [0..<queue_num] d"

primrec create_pools :: "eal \<Rightarrow> nat list \<Rightarrow> dpdk \<Rightarrow> dpdk eal_prog" where
  "create_pools e [] d = ret d"
| "create_pools e (i # is) d =
     (let pool_name = ''MBUF_POOL_'' @ show_nat i in
      bindp (eal_call e (PoolCreate pool_name DPDK_MAX_MBUFS DPDK_MBUF_CACHE_SIZE)) (\<lambda>(pool, err).
      if pool = 0 then log_fatal (''Cannot create '' @ pool_name @ '' mbuf pool: '' @ err_text e (uint err))
      else create_pools e is (d\<lparr>mbuf_pools := (mbuf_pools d)[i := pool]\<rparr>)))"

primrec init_ports :: "eal \<Rightarrow> nat \<Rightarrow> u16 list \<Rightarrow> dpdk \<Rightarrow> (int \<times> dpdk) eal_prog" where
  "init_ports e num_threads [] d = ret (0, d)"
| "init_ports e num_threads (port_id # ports) d =
     bindp (port_init e d port_id) (\<lambda>r.
     if r \<noteq> 0 then ret (- 1, d)
     else init_ports e num_threads ports (enter_threads port_id (num_threads div unat (port_num d)) d))"

primrec launch_loops :: "eal \<Rightarrow> dpdk \<Rightarrow> nat list \<Rightarrow> unit eal_prog" where
  "launch_loops e d [] = ret ()"
| "launch_loops e d (lcore_id # is) =
     bindp (eal_call e (RemoteLaunch (thread_infos d ! lcore_id) (of_nat lcore_id))) (\<lambda>(r, _).
     if r \<noteq> 0 then log_fatal (''Failed to launch rx loop on lcore '' @ show_nat lcore_id @ '': ''
       @ err_text e (- r))
     else launch_loops e d is)"

text \<open>Waking the constructor and entering the receive loops.\<close>

definition start_loops :: "eal \<Rightarrow> dpdk \<Rightarrow> (int \<times> dpdk) eal_prog" where
  "start_loops e d =
     thenp (eal_call e NotifyInit)
     (thenp (launch_loops e d [1..<length (thread_infos d)])
     (if thread_infos d = [] then raise OutOfBounds
      else bindp (eal_call e (RxLoop (thread_infos d ! 0))) (\<lambda>(r, _). ret (r, d))))"

text \<open>From the number of ports on.\<close>

definition init_threads :: "eal \<Rightarrow> int \<Rightarrow> dpdk \<Rightarrow> (int \<times> dpdk) eal_prog" where
  "init_threads e num_threads d =
     (let adjusted = unat (adjust_threads num_threads (port_num d)) in
      thenp (if num_threads smod int (unat (port_num d)) \<noteq> 0
             then log_msg WARN (''Number of threads ('' @ show_nat (nat num_threads)
               @ '') is not a multiple of number of ports ('' @ show_nat (unat (port_num d))
               @ ''). Adjusting number of threads to '' @ show_nat adjusted @ ''.'') else ret ())
      (let d = d\<lparr>mbuf_pools := replicate adjusted 0, thread_infos := replicate adjusted None\<rparr> in
       bindp (create_pools e [0..<adjusted] d) (\<lambda>d.
       bindp (init_ports e adjusted (map of_nat [0..<unat (port_num d)]) d) (\<lambda>(r, d).
       if r \<noteq> 0 then ret (- 1, d) else start_loops e d))))"

definition init_dpdk :: "eal \<Rightarrow> string \<Rightarrow> int \<Rightarrow> dpdk \<Rightarrow> (int \<times> dpdk) eal_prog" where
  "init_dpdk e argv_str num_threads d =
     bindp (eal_call e (EalInit (strtok_all argv_str))) (\<lambda>(r, _).
     if r < 0 then log_fatal ''Failed to initialize EAL'' else
     bindp (eal_call e DevCountAvail) (\<lambda>(count, _).
     (let d = d\<lparr>port_num := word_of_int count\<rparr> in
      if port_num d = 0 then log_fatal ''No available Ethernet ports''
      else init_threads e num_threads d)))"

text \<open>The main thread of the object, and the shutdown.\<close>

definition main_thread :: "eal \<Rightarrow> string \<Rightarrow> int \<Rightarrow> dpdk \<Rightarrow> dpdk eal_prog" where
  "main_thread e dpdk_config num_threads d =
     bindp (init_dpdk e dpdk_config num_threads d) (\<lambda>(r, d).
     if r < 0 then log_fatal ''Failed to initialize DPDK'' else ret d)"

definition shutdown :: "eal \<Rightarrow> dpdk \<Rightarrow> unit eal_prog" where
  "shutdown e d =
     thenp (eal_call e MainJoin)
     (thenp (eal_call e WaitLcore)
     (thenp (for_each (\<lambda>p. thenp (eal_call e (DevStop p)) (thenp (eal_call e (DevClose p)) (ret ())))
       (map of_nat [0..<unat (port_num d)]))
     (thenp (eal_call e EalCleanup) (ret ()))))"

definition trigger_shutdown :: "dpdk \<Rightarrow> dpdk" where
  "trigger_shutdown d = d\<lparr>force_quit := True\<rparr>"

text \<open>The destructor.\<close>

definition dpdk_delete :: "eal \<Rightarrow> dpdk \<Rightarrow> unit eal_prog" where
  "dpdk_delete e d = (let d = (if \<not> force_quit d then trigger_shutdown d else d) in shutdown e d)"

section \<open>Splitting the arguments\<close>

lemma strtok_blanks: "strtok_all (replicate k (CHR '' '') @ s) = strtok_all s"
proof -
  have "dropWhile (\<lambda>c. c = CHR '' '') (replicate k (CHR '' '') @ s) = dropWhile (\<lambda>c. c = CHR '' '') s"
    by (induction k) simp_all
  then show ?thesis by (subst (1 2) strtok_all.simps) simp
qed

lemma strtok_word:
  assumes "w \<noteq> []" and "CHR '' '' \<notin> set w" and "s = [] \<or> hd s = CHR '' ''"
  shows "strtok_all (w @ s) = w # strtok_all s"
proof -
  obtain c r where w: "w = c # r" using assms(1) by (cases w) auto
  have t: "takeWhile (\<lambda>c. c \<noteq> CHR '' '') (w @ s) = w" "dropWhile (\<lambda>c. c \<noteq> CHR '' '') (w @ s) = s"
    using assms by (cases s; auto simp: takeWhile_append dropWhile_append)+
  have d: "dropWhile (\<lambda>c. c = CHR '' '') (w @ s) = w @ s"
    using assms(2) by (auto simp: w)
  show ?thesis
    using assms(1) by (subst strtok_all.simps) (simp add: d t Let_def)
qed

section \<open>Runs\<close>

lemma eal_call_run [prog_simps]:
  "eal_call e c w = (Inr (respond e (device w) c), w\<lparr>device := device w @ [c]\<rparr>)"
  by (simp add: eal_call_def)

lemma eal_call_then [prog_simps]:
  "bindp (eal_call e c) f w = f (respond e (device w) c) (w\<lparr>device := device w @ [c]\<rparr>)"
  "thenp (eal_call e c) n w = n (w\<lparr>device := device w @ [c]\<rparr>)"
  by (simp_all add: bindp_run(2) [OF eal_call_run] thenp_run(2) [OF eal_call_run])

lemma bindp_InrE:
  assumes "bindp m f w = (Inr b, w')"
  obtains a w1 where "m w = (Inr a, w1)" and "f a w1 = (Inr b, w')"
  using assms by (auto simp: bindp_def split: prod.splits sum.splits)

lemma thenp_InrE:
  assumes "thenp m n w = (Inr b, w')"
  obtains a w1 where "m w = (Inr a, w1)" and "n w1 = (Inr b, w')"
  using assms unfolding thenp_def by (rule bindp_InrE)

lemma fail_msg_run [prog_simps]:
  "fail_msg msg w = (Inr (- 1), w\<lparr>log_lines := log_lines w @ [(ERROR, msg)]\<rparr>)"
  by (simp add: fail_msg_def prog_simps)

text \<open>A computation all of whose calls satisfy \<open>P\<close>.\<close>

definition emits :: "(eal_call \<Rightarrow> bool) \<Rightarrow> 'a eal_prog \<Rightarrow> bool" where
  "emits P m \<longleftrightarrow> (\<forall>w. \<exists>cs. device (snd (m w)) = device w @ cs \<and> list_all P cs)"

named_theorems emits_rules \<open>which calls a computation makes\<close>



lemma emits_bindp_result:
  assumes "emits P m" and "\<And>w a w'. m w = (Inr a, w') \<Longrightarrow> emits P (f a)"
  shows "emits P (bindp m f)"
  unfolding emits_def
proof
  fix w
  obtain r w1 where r: "m w = (r, w1)" by (cases "m w")
  then obtain cs where cs: "device w1 = device w @ cs" "list_all P cs"
    using assms(1) unfolding emits_def by (metis snd_conv)
  show "\<exists>cs. device (snd (bindp m f w)) = device w @ cs \<and> list_all P cs"
  proof (cases r)
    case (Inl x)
    then show ?thesis using r cs by (simp add: bindp_def)
  next
    case (Inr a)
    then obtain cs' where "device (snd (f a w1)) = device w1 @ cs'" "list_all P cs'"
      using assms(2) r unfolding emits_def by blast
    then show ?thesis using r cs Inr by (auto simp: bindp_def)
  qed
qed

lemma emits_bindp [emits_rules]: "emits P m \<Longrightarrow> (\<And>a. emits P (f a)) \<Longrightarrow> emits P (bindp m f)"
  by (rule emits_bindp_result)

lemma emits_thenp [emits_rules]: "emits P m \<Longrightarrow> emits P n \<Longrightarrow> emits P (thenp m n)"
  unfolding thenp_def by (rule emits_bindp)


lemma emits_split [emits_rules]: "(\<And>a b. emits P (f a b)) \<Longrightarrow> emits P (case x of (a, b) \<Rightarrow> f a b)"
  by (cases x) simp

lemma emits_let [emits_rules]: "(\<And>x. emits P (f x)) \<Longrightarrow> emits P (Let y f)"
  by simp

text \<open>Calls that start no receive loop and do not wake the constructor.\<close>

fun setup_call :: "eal_call \<Rightarrow> bool" where
  "setup_call NotifyInit = False"
| "setup_call (RemoteLaunch ti lcore) = False"
| "setup_call (RxLoop ti) = False"
| "setup_call c = True"





text \<open>A setup of queues that succeeds has made all its calls.\<close>

lemma setup_queues_complete:
  "setup_queues e d p qn rings qs w = (Inr r, w') \<Longrightarrow> \<not> r < 0 \<Longrightarrow>
     device w' = device w @ map (\<lambda>q. RxQueueSetup p q rings DPDK_WRITEBACK_THRESH
       (mbuf_pools d ! unat (of_nat (unat p * qn + q) :: u16))) qs"
proof (induction qs arbitrary: w)
  case Nil
  then show ?case by (simp add: ret_run)
next
  case (Cons q qs)
  from Cons.prems show ?case
    by (auto simp: Let_def prog_simps case_prod_unfold split: if_splits dest!: Cons.IH)
qed

section \<open>The tables\<close>


definition ports_table :: "nat \<Rightarrow> u16 list \<Rightarrow> dpdk \<Rightarrow> dpdk" where
  "ports_table queue_num ports d = fold (\<lambda>p. enter_threads p queue_num) ports d"

lemma enter_threads_port_num [simp]: "port_num (enter_threads p qn d) = port_num d"
proof -
  have "port_num (fold (\<lambda>q d. d\<lparr>thread_infos := (thread_infos d)[f q := g q]\<rparr>) qs d) = port_num d" for f g qs
    by (induction qs arbitrary: d) simp_all
  then show ?thesis by (simp add: enter_threads_def)
qed

lemma init_ports_result:
  "init_ports e n ports d w = (Inr (0, d'), w') \<Longrightarrow> d' = ports_table (n div unat (port_num d)) ports d"
proof (induction ports arbitrary: d w)
  case Nil
  then show ?case by (simp add: ret_run ports_table_def)
next
  case (Cons p ports)
  from Cons.prems show ?case
    unfolding init_ports.simps
    by (rule bindp_InrE) (auto simp: ret_run ports_table_def split: if_splits dest!: Cons.IH)
qed




text \<open>After all ports every entry is there.\<close>

definition full_table :: "nat \<Rightarrow> nat \<Rightarrow> thread_info option list" where
  "full_table queue_num ports =
     concat (map (\<lambda>p. map (\<lambda>q. Some (thread_of (of_nat p) queue_num q)) [0..<queue_num]) [0..<ports])"

lemma length_full_table [simp]: "length (full_table qn m) = m * qn"
  by (induction m) (simp_all add: full_table_def)





section \<open>Which loops are launched\<close>



definition start_calls :: "eal_call list \<Rightarrow> eal_call list" where
  "start_calls cs = filter (\<lambda>c. \<not> setup_call c) cs"

lemma start_calls_simps [simp]:
  "start_calls (cs @ cs') = start_calls cs @ start_calls cs'" "list_all setup_call cs \<Longrightarrow> start_calls cs = []"
  by (simp_all add: start_calls_def filter_empty_conv list_all_iff)








lemma start_calls_launch [simp]:
  "start_calls (map (\<lambda>k. RemoteLaunch (f k) (g k)) ks) = map (\<lambda>k. RemoteLaunch (f k) (g k)) ks"
  by (simp add: start_calls_def filter_id_conv)



section \<open>Properties\<close>

text \<open>The least multiple of \<open>P\<close> that is not below \<open>n\<close>.\<close>

definition round_up :: "nat \<Rightarrow> nat \<Rightarrow> nat" where
  "round_up n P = (n + P - 1) div P * P"

lemma round_up_bounds: "0 < P \<Longrightarrow> n \<le> round_up n P \<and> round_up n P < n + P \<and> P dvd round_up n P"
proof -
  assume P: "0 < P"
  have "round_up n P + (n + P - 1) mod P = n + P - 1" by (simp add: round_up_def)
  moreover have "(n + P - 1) mod P < P" using P by simp
  moreover have "P dvd round_up n P" by (simp add: round_up_def)
  ultimately show ?thesis using P by linarith
qed

lemma round_up_cases: "0 < P \<Longrightarrow> round_up n P = (if n mod P = 0 then n else (n div P + 1) * P)"
proof -
  assume P: "0 < P"
  have b: "n \<le> round_up n P" "round_up n P < n + P" "P dvd round_up n P"
    using round_up_bounds [OF P, of n] by simp_all
  then obtain a where a: "round_up n P = a * P" by (metis dvd_div_mult_self)
  show ?thesis
  proof (cases "n mod P = 0")
    case True
    then obtain c where "n = c * P" by (metis mod_0_imp_dvd dvd_div_mult_self)
    with a b P have "c * P \<le> a * P" "a * P < (c + 1) * P" by simp_all
    then have "a = c" using P by (simp only: mult_le_cancel2 mult_less_cancel2) auto
    with a \<open>n = c * P\<close> True show ?thesis by simp
  next
    case False
    let ?c = "n div P"
    have c: "?c * P < n" "n < (?c + 1) * P"
      using False div_mult_mod_eq [of n P] mod_less_divisor [OF P, of n] by (simp_all, linarith+)
    have "?c * P < a * P" using a b(1) c(1) by linarith
    moreover have "(?c + 2) * P = (?c + 1) * P + P" by simp
    then have "a * P < (?c + 2) * P" using a b(2) c(2) by linarith
    ultimately have "a = ?c + 1" by (simp only: mult_less_cancel2) linarith
    with a False show ?thesis by simp
  qed
qed

lemma adjusted_round_up:
  assumes "P \<noteq> (0 :: u16)"
  shows "unat (adjust_threads (int n) P) = round_up n (unat P) mod 2 ^ 16"
proof -
  have p: "0 < unat P" using assms by (simp add: unat_gt_0)
  have m: "int n smod int (unat P) = int (n mod unat P)"
    "(int n sdiv int (unat P) + 1) * int (unat P) = int ((n div unat P + 1) * unat P)"
    using p sdiv_nonneg [of "int n" "int (unat P)"]
    by (simp_all only: zmod_int zdiv_int of_nat_mult of_nat_add of_nat_1 of_nat_0_le_iff of_nat_0_less_iff simp_thms)
  have w: "unat (word_of_int (int k) :: u16) = k mod 2 ^ 16" for k
    by (simp only: of_int_of_nat_eq unsigned_of_nat take_bit_eq_mod) simp
  show ?thesis
    unfolding round_up_cases [OF p] adjust_threads_def m by (simp only: of_nat_eq_0_iff w if_distrib cong: if_cong) simp
qed


text \<open>C33: The number of threads is rounded up to the least multiple of the number of ports, in 16
  bits: the rounding can leave the range of \<open>uint16_t\<close> and come back as a number that is neither
  enough nor a multiple.\<close>

theorem adjust_threads_least:
  assumes "P \<noteq> (0 :: u16)"
  shows "unat (adjust_threads (int n) P) = round_up n (unat P) mod 2 ^ 16 \<and>
     n \<le> round_up n (unat P) \<and> round_up n (unat P) < n + unat P \<and> unat P dvd round_up n (unat P)"
  using adjusted_round_up [OF assms] round_up_bounds [of "unat P" n] assms by (simp add: unat_gt_0)

theorem adjust_threads_least_witness:
  "adjust_threads 65535 10 = 4 \<and> adjust_threads 3 2 = 4"
proof -
  have "unat (adjust_threads (int 65535) 10) = 4" "unat (adjust_threads (int 3) 2) = 4"
    using adjust_threads_least [of 10 65535] adjust_threads_least [of 2 3]
    by (simp_all add: round_up_def)
  then show ?thesis by (simp add: word_unat_eq_iff)
qed

text \<open>The EAL argument string is split into its words, whatever blanks stand around them.\<close>

lemma strtok_splits:
  assumes "list_all (\<lambda>w. w \<noteq> [] \<and> CHR '' '' \<notin> set w) (w # map snd kws)"
  shows "strtok_all (replicate i (CHR '' '') @ w @ concat (map (\<lambda>(k, w). replicate (Suc k) (CHR '' '') @ w) kws)
      @ replicate j (CHR '' '')) = w # map snd kws"
  using assms
proof (induction kws arbitrary: i w)
  case Nil
  have "strtok_all (replicate j (CHR '' '')) = []"
    using strtok_blanks [of j "[]"] by (simp add: strtok_all.simps [of "[]"])
  then show ?case
    using Nil strtok_word [of w "replicate j (CHR '' '')"] by (cases j) (simp_all add: strtok_blanks)
next
  case (Cons kw kws)
  obtain k v where kw: "kw = (k, v)" by (cases kw)
  let ?r = "v @ concat (map (\<lambda>(k, w). replicate (Suc k) (CHR '' '') @ w) kws) @ replicate j (CHR '' '')"
  have "strtok_all (replicate (Suc k) (CHR '' '') @ ?r) = v # map snd kws"
    using Cons.prems by (intro Cons.IH) (simp add: kw)
  moreover have "strtok_all (w @ replicate (Suc k) (CHR '' '') @ ?r) = w # strtok_all (replicate (Suc k) (CHR '' '') @ ?r)"
    using Cons.prems by (intro strtok_word) simp_all
  ultimately show ?case
    by (simp only: strtok_blanks kw list.map concat.simps case_prod_conv append_assoc snd_conv)
qed

lemma strtok_splits_example:
  "strtok_all '' -l 0-3  --file-prefix pf '' = [''-l'', ''0-3'', ''--file-prefix'', ''pf'']"
  using strtok_splits [of "''-l''" "[(0, ''0-3''), (1, ''--file-prefix''), (0, ''pf'')]" 1 1] by simp








lemma fold_threads_keeps:
  "length (thread_infos (fold (\<lambda>q d. d\<lparr>thread_infos := (thread_infos d)[f q := g q]\<rparr>) qs d)) = length (thread_infos d)"
  "mbuf_pools (fold (\<lambda>q d. d\<lparr>thread_infos := (thread_infos d)[f q := g q]\<rparr>) qs d) = mbuf_pools d"
  by (induction qs arbitrary: d) simp_all

lemma enter_threads_keeps [simp]:
  "length (thread_infos (enter_threads p qn d)) = length (thread_infos d)"
  "mbuf_pools (enter_threads p qn d) = mbuf_pools d"
  by (simp_all add: enter_threads_def fold_threads_keeps)









text \<open>C34: A port is reported ready only if every step was made, in this order: the checks, the
  configuration with its number of queues, every queue with the memory pool of its thread, and
  only then the start of the device and the reset of its statistics.\<close>

theorem port_init_complete:
  assumes "port_init e d p w = (Inr 0, w')"
  shows "\<exists>rings. device w' = device w
    @ (let qn = length (thread_infos d) div unat (port_num d) in
       [IsValidPort p, DevInfoGet p, DevConfigure p qn, AdjustDesc p DPDK_DESC_RING_SIZE 0]
       @ map (\<lambda>q. RxQueueSetup p q rings DPDK_WRITEBACK_THRESH
           (mbuf_pools d ! unat (of_nat (unat p * qn + q) :: u16))) [0..<qn]
       @ [DevStart p, StatsReset p])"
proof -
  let ?qn = "length (thread_infos d) div unat (port_num d)"
  let ?pre = "[IsValidPort p, DevInfoGet p, DevConfigure p ?qn, AdjustDesc p DPDK_DESC_RING_SIZE 0]"
  let ?w = "w\<lparr>device := device w @ ?pre\<rparr>"
  obtain rings where "bindp (setup_queues e d p ?qn rings [0..<?qn]) (\<lambda>r.
      if r < 0 then ret (- 1) else
      bindp (eal_call e (DevStart p)) (\<lambda>(r, _).
      if r < 0 then fail_msg (''Failed to start port '' @ show_nat (unat p) @ '': '' @ err_text e (- r)) else
      bindp (eal_call e (StatsReset p)) (\<lambda>(r, _).
      if r < 0 then fail_msg (''Failed to reset stats for port '' @ show_nat (unat p) @ '': '' @ err_text e (- r))
      else ret 0))) ?w = (Inr 0, w')"
    using assms by (simp add: port_init_def Let_def eal_call_then fail_msg_run case_prod_unfold split: if_splits)
  then obtain r w1 where q: "setup_queues e d p ?qn rings [0..<?qn] ?w = (Inr r, w1)" "\<not> r < 0"
    "device w' = device w1 @ [DevStart p, StatsReset p]"
    by (elim bindp_InrE) (auto simp: eal_call_then fail_msg_run ret_run case_prod_unfold split: if_splits)
  have "device w' = device w @ ?pre @ map (\<lambda>q. RxQueueSetup p q rings DPDK_WRITEBACK_THRESH
      (mbuf_pools d ! unat (of_nat (unat p * ?qn + q) :: u16))) [0..<?qn] @ [DevStart p, StatsReset p]"
    using setup_queues_complete [OF q(1,2)] q(3) by simp
  then show ?thesis by (auto simp: Let_def)
qed

theorem port_init_complete_witness:
  "let e = \<lparr>respond = \<lambda>_ c. (1, 512), err_text = \<lambda>_. []\<rparr>;
       d = \<lparr>port_num = 1, mbuf_pools = [7, 8], thread_infos = [None, None], force_quit = False\<rparr>;
       w = \<lparr>device = [], log_lines = []\<rparr>
   in DevStart 0 \<in> set (device (snd (port_init e d 0 w)))"
proof -
  let ?e = "\<lparr>respond = \<lambda>_ c. (1, 512), err_text = \<lambda>_. []\<rparr>"
  let ?d = "\<lparr>port_num = 1, mbuf_pools = [7, 8], thread_infos = [None, None], force_quit = False\<rparr>"
  let ?w = "\<lparr>device = [], log_lines = []\<rparr>"
  obtain w' where w': "port_init ?e ?d 0 ?w = (Inr 0, w')"
    by (simp add: port_init_def Let_def eal_call_then ret_run upt_rec bindp_def eal_call_def ret_def)
  show ?thesis using port_init_complete [OF w'] w' by (auto simp: Let_def)
qed

text \<open>The shutdown joins the main thread and waits for the receive loops before it stops and
  closes every port, each once and in order, and cleans up last.\<close>

lemma shutdown_trace:
  "shutdown e d w = (Inr (), w\<lparr>device := device w @ [MainJoin, WaitLcore]
     @ concat (map (\<lambda>k. [DevStop (of_nat k), DevClose (of_nat k)]) [0..<unat (port_num d)]) @ [EalCleanup]\<rparr>)"
proof -
  have "for_each (\<lambda>p. thenp (eal_call e (DevStop p)) (thenp (eal_call e (DevClose p)) (ret ()))) ps w =
      (Inr (), w\<lparr>device := device w @ concat (map (\<lambda>p. [DevStop p, DevClose p]) ps)\<rparr>)" for ps w
    by (induction ps arbitrary: w)
      (simp_all add: ret_run thenp_def bindp_def eal_call_def ret_def)
  then show ?thesis
    by (simp add: shutdown_def eal_call_then thenp_run(2) ret_run comp_def)
qed

text \<open>With no thread asked for, the initialisation never succeeds: it fails, or it reads the first
  entry of an empty table.\<close>

lemma no_threads_no_success:
  assumes "init_dpdk e argv_str 0 d w = (Inr (r, d'), w')"
  shows "r = - 1"
proof -
  have a: "unat (adjust_threads 0 p) = 0" for p :: u16
    by (cases "p = 0") (simp_all add: adjust_threads_def signed_divide_int_def signed_modulo_int_def)
  have "r = - 1" if run: "init_threads e 0 d1 w1 = (Inr (r, d'), w')" for d1 w1
  proof -
    define d2 where "d2 = d1\<lparr>mbuf_pools := [], thread_infos := []\<rparr>"
    have m: "0 smod int (unat (port_num d1)) = 0" by (simp add: signed_modulo_int_def signed_divide_int_def)
    have c: "thread_infos d2 = []" "bindp (init_ports e 0 (map of_nat [0..<unat (port_num d2)]) d2)
        (\<lambda>(r, d). if r \<noteq> 0 then ret (- 1, d) else start_loops e d) w1 = (Inr (r, d'), w')"
      using run by (simp_all add: init_threads_def a m Let_def prog_then d2_def)
    from c(2) obtain x d3 w3 where x: "init_ports e 0 (map of_nat [0..<unat (port_num d2)]) d2 w1 = (Inr (x, d3), w3)"
      "(if x \<noteq> 0 then ret (- 1, d3) else start_loops e d3) w3 = (Inr (r, d'), w')"
      by (elim bindp_InrE) auto
    show ?thesis
    proof (cases "x = 0")
      case True
      have f: "thread_infos (enter_threads p 0 d) = thread_infos d" for p d
        by (simp add: enter_threads_def)
      have "thread_infos (ports_table 0 ps d) = thread_infos d" for ps d
        by (induction ps arbitrary: d) (simp_all add: ports_table_def f)
      moreover have "d3 = ports_table 0 (map of_nat [0..<unat (port_num d2)]) d2"
        using init_ports_result [of e 0 "map of_nat [0..<unat (port_num d2)]" d2 w1 d3 w3] x(1) True by simp
      ultimately have "thread_infos d3 = []" using c(1) by simp
      with x(2) True show ?thesis
        by (simp add: start_loops_def thenp_def bindp_def eal_call_run ret_def raise_def)
    next
      case False
      with x(2) show ?thesis by (simp add: ret_run)
    qed
  qed
  with assms show ?thesis
    unfolding init_dpdk_def Let_def
    by (elim bindp_InrE) (auto simp: log_fatal_run eal_call_then case_prod_unfold split: if_splits)
qed

end
