(* ===== verification/Dpdk_Rx.thy ===== *)
theory Dpdk_Rx
  imports Dpdk_Init Packet_Handler
begin

text \<open>
  The receive loop \<open>DPDK::dpdk_rx_loop\<close> once its callback is registered. The bursts that
  \<open>rte_eth_rx_burst\<close> returns until \<open>force_quit_\<close> is seen are an argument, each a list of buffers
  (the valid part of \<open>bufs\<close>, at most \<open>DPDK_BURST_SIZE\<close> buffers, though nothing here depends on
  that bound; an access beyond the valid part is the fault \<open>OutOfBounds\<close>). The state keeps
  what happens to the buffers, in order. The wait for the callback is in \<open>Dpdk_Threads\<close>.
\<close>

datatype 'm rx_event = Prefetch 'm | Callback u16 'm | Free 'm

type_synonym ('m, 'a) rx_prog = "('m rx_event list world, 'a) prog"

definition DPDK_BURST_SIZE :: nat where "DPDK_BURST_SIZE = 32"
definition DPDK_PREFETCH_NUM :: nat where "DPDK_PREFETCH_NUM = 4"

definition rx_event :: "'m rx_event \<Rightarrow> ('m, unit) rx_prog" where
  "rx_event ev = modifyp (\<lambda>w. w\<lparr>device := device w @ [ev]\<rparr>)"

definition buf_at :: "'m list \<Rightarrow> nat \<Rightarrow> ('m, 'm) rx_prog" where
  "buf_at bufs i = (if i < length bufs then ret (bufs ! i) else raise OutOfBounds)"

text \<open>The body for buffer \<open>i\<close>; \<open>len\<close> gives the packet length for the log line.\<close>

definition process_buf ::
  "('m \<Rightarrow> u32) \<Rightarrow> (u16 \<Rightarrow> 'm \<Rightarrow> ('m, int) rx_prog) \<Rightarrow> u16 \<Rightarrow> 'm list \<Rightarrow> nat \<Rightarrow> ('m, unit) rx_prog" where
  "process_buf len rx_callback thread_id bufs i =
     bindp (buf_at bufs i) (\<lambda>m.
     thenp (log_msg DEBUG (''Processing packet '' @ show_nat i @ '' on thread_id ''
       @ show_nat (unat thread_id) @ '' with length '' @ show_nat (unat (len m))))
     (thenp (rx_event (Callback thread_id m))
     (bindp (rx_callback thread_id m) (\<lambda>r.
      thenp (if r < 0 then log_msg WARN (''Packet processing failed on thread_id ''
        @ show_nat (unat thread_id) @ '', packet '' @ show_nat i) else ret ())
     (thenp (rx_event (Free m))
     (if i + DPDK_PREFETCH_NUM < length bufs
      then bindp (buf_at bufs (i + DPDK_PREFETCH_NUM)) (\<lambda>m. rx_event (Prefetch m))
      else ret ()))))))"

definition process_burst ::
  "('m \<Rightarrow> u32) \<Rightarrow> (u16 \<Rightarrow> 'm \<Rightarrow> ('m, int) rx_prog) \<Rightarrow> u16 \<Rightarrow> 'm list \<Rightarrow> ('m, unit) rx_prog" where
  "process_burst len rx_callback thread_id bufs =
     (let nb_rx = length bufs in
      if nb_rx = 0 then ret ()
      else
        thenp (log_msg DEBUG (''Received '' @ show_nat nb_rx @ '' packets on thread_id ''
          @ show_nat (unat thread_id)))
        (thenp (for_each (\<lambda>i. bindp (buf_at bufs i) (\<lambda>m. rx_event (Prefetch m)))
          (filter (\<lambda>i. i < DPDK_PREFETCH_NUM) [0..<nb_rx]))
        (for_each (process_buf len rx_callback thread_id bufs) [0..<nb_rx])))"

definition dpdk_rx_loop ::
  "('m \<Rightarrow> u32) \<Rightarrow> (u16 \<Rightarrow> 'm \<Rightarrow> ('m, int) rx_prog) \<Rightarrow> thread_info \<Rightarrow> 'm list list \<Rightarrow> ('m, int) rx_prog" where
  "dpdk_rx_loop len rx_callback tinfo bursts =
     thenp (log_msg INFO (''Starting rx loop on thread_id: '' @ show_nat (unat (tthread_id tinfo))
       @ '', port_id: '' @ show_nat (unat (tport_id tinfo)) @ '', queue_id: ''
       @ show_nat (unat (tqueue_id tinfo))))
     (thenp (for_each (process_burst len rx_callback (tthread_id tinfo)) bursts) (ret 0))"

section \<open>What happens to the buffers\<close>

lemma rx_event_then [prog_simps]:
  "thenp (rx_event ev) n w = n (w\<lparr>device := device w @ [ev]\<rparr>)"
  "rx_event ev w = (Inr (), w\<lparr>device := device w @ [ev]\<rparr>)"
  by (simp_all add: rx_event_def prog_simps)

lemma buf_at_in [prog_simps]: "i < length bufs \<Longrightarrow> buf_at bufs i = ret (bufs ! i)"
  by (simp add: buf_at_def)

text \<open>A callback that returns and leaves the buffers alone.\<close>

definition returns :: "(u16 \<Rightarrow> 'm \<Rightarrow> ('m, int) rx_prog) \<Rightarrow> 'm list \<Rightarrow> bool" where
  "returns cb bufs \<longleftrightarrow>
     (\<forall>m\<in>set bufs. \<forall>t w. \<exists>r w'. cb t m w = (Inr r, w') \<and> device w' = device w)"

lemma returns_nth: "returns cb bufs \<Longrightarrow> i < length bufs \<Longrightarrow> returns cb [bufs ! i]"
  by (simp add: returns_def)

definition buf_trace :: "u16 \<Rightarrow> 'm list \<Rightarrow> nat \<Rightarrow> 'm rx_event list" where
  "buf_trace t bufs i = [Callback t (bufs ! i), Free (bufs ! i)]
     @ (if i + 4 < length bufs then [Prefetch (bufs ! (i + 4))] else [])"

lemma process_buf_trace:
  fixes bufs :: "'m list"
  assumes "returns cb [bufs ! i]" and "i < length bufs"
  shows "\<exists>w'. process_buf len cb t bufs i w = (Inr (), w') \<and> device w' = device w @ buf_trace t bufs i"
proof -
  define w1 where "w1 = w\<lparr>log_lines := log_lines w @ [(DEBUG, ''Processing packet '' @ show_nat i @ '' on thread_id ''
       @ show_nat (unat t) @ '' with length '' @ show_nat (unat (len (bufs ! i))))],
       device := device w @ [Callback t (bufs ! i)]\<rparr>"
  obtain r w2 where c: "cb t (bufs ! i) w1 = (Inr r, w2)" "device w2 = device w1"
    using assms(1) unfolding returns_def by (metis list.set_intros(1))
  have d: "device w2 = device w @ [Callback t (bufs ! i)]"
    using c(2) by (simp add: w1_def)
  have b: "bindp (cb t (bufs ! i)) f w1 = f r w2" for f :: "int \<Rightarrow> ('m, unit) rx_prog"
    using c(1) by (rule bindp_run(2))
  show ?thesis
    using assms(2) b d
    by (auto simp: process_buf_def buf_at_in prog_then log_then rx_event_then ret_run DPDK_PREFETCH_NUM_def
        buf_trace_def w1_def)
qed

lemma for_each_trace:
  assumes "\<And>i w. i \<in> set is \<Longrightarrow> \<exists>w'. f i w = (Inr (), w') \<and> device w' = device w @ g i"
  shows "\<exists>w'. for_each f is w = (Inr (), w') \<and> device w' = device w @ concat (map g is)"
  using assms
proof (induction "is" arbitrary: w)
  case Nil
  then show ?case by (simp add: ret_run)
next
  case (Cons i "is")
  obtain w1 where w1: "f i w = (Inr (), w1)" "device w1 = device w @ g i"
    using Cons.prems [of i w] by auto
  obtain w2 where "for_each f is w1 = (Inr (), w2)" "device w2 = device w1 @ concat (map g is)"
    using Cons.IH [of w1] Cons.prems by auto
  with w1 show ?case by (simp add: thenp_run(2))
qed

definition burst_trace :: "u16 \<Rightarrow> 'm list \<Rightarrow> 'm rx_event list" where
  "burst_trace t bufs = map Prefetch (take 4 bufs) @ concat (map (buf_trace t bufs) [0..<length bufs])"

lemma first_prefetches: "map (\<lambda>i. bufs ! i) (filter (\<lambda>i. i < 4) [0..<length bufs]) = take 4 bufs"
proof -
  have "filter (\<lambda>i. i < 4) [0..<n] = [0..<min 4 n]" for n :: nat
  proof (induction n)
    case (Suc n)
    then show ?case by (cases "n < 4") (simp_all add: min_absorb1 min_absorb2)
  qed simp
  then show ?thesis
    by (intro nth_equalityI) simp_all
qed

text \<open>A burst up to its loop over the buffers.\<close>

lemma process_burst_start:
  fixes bufs :: "'m list"
  assumes "bufs \<noteq> []"
  obtains w1 where "process_burst len cb t bufs w = for_each (process_buf len cb t bufs) [0..<length bufs] w1"
    and "device w1 = device w @ map Prefetch (take 4 bufs)"
proof -
  let ?is = "filter (\<lambda>i. i < 4) [0..<length bufs]"
  define w0 where "w0 = w\<lparr>log_lines := log_lines w @ [(DEBUG, ''Received '' @ show_nat (length bufs)
      @ '' packets on thread_id '' @ show_nat (unat t))]\<rparr>"
  obtain w1 where w1: "for_each (\<lambda>i. bindp (buf_at bufs i) (\<lambda>m. rx_event (Prefetch m))) ?is w0 = (Inr (), w1)"
    "device w1 = device w0 @ concat (map (\<lambda>i. [Prefetch (bufs ! i)]) ?is)"
    using for_each_trace [of ?is "\<lambda>i. bindp (buf_at bufs i) (\<lambda>m. rx_event (Prefetch m))" "\<lambda>i. [Prefetch (bufs ! i)]" w0]
    by (auto simp: buf_at_in prog_then rx_event_then)
  have "concat (map (\<lambda>i. [Prefetch (bufs ! i)]) ?is) = map Prefetch (take 4 bufs)"
    by (simp add: first_prefetches [symmetric] comp_def)
  moreover have "thenp (for_each (\<lambda>i. bindp (buf_at bufs i) (\<lambda>m. rx_event (Prefetch m))) ?is) n w0 = n w1"
    for n :: "('m, unit) rx_prog"
    using w1(1) by (rule thenp_run(2))
  ultimately show thesis
    using assms w1(2)
    by (intro that [of w1]) (simp_all add: process_burst_def Let_def log_then DPDK_PREFETCH_NUM_def w0_def)
qed

lemma process_burst_trace:
  fixes bufs :: "'m list"
  assumes "returns cb bufs"
  shows "\<exists>w'. process_burst len cb t bufs w = (Inr (), w') \<and> device w' = device w @ burst_trace t bufs"
proof (cases "bufs = []")
  case True
  then show ?thesis by (simp add: process_burst_def ret_run burst_trace_def)
next
  case False
  obtain w1 where w1: "process_burst len cb t bufs w = for_each (process_buf len cb t bufs) [0..<length bufs] w1"
    "device w1 = device w @ map Prefetch (take 4 bufs)"
    by (rule process_burst_start [OF False])
  have "\<exists>w'. process_buf len cb t bufs i w = (Inr (), w') \<and> device w' = device w @ buf_trace t bufs i"
    if "i \<in> set [0..<length bufs]" for i w
    using that returns_nth [OF assms] by (intro process_buf_trace) simp_all
  from for_each_trace [of "[0..<length bufs]" "process_buf len cb t bufs" "buf_trace t bufs" w1, OF this]
  obtain w2 where "for_each (process_buf len cb t bufs) [0..<length bufs] w1 = (Inr (), w2)"
      "device w2 = device w1 @ concat (map (buf_trace t bufs) [0..<length bufs])"
    by blast
  with w1 show ?thesis by (simp add: burst_trace_def)
qed

fun is_prefetch :: "'m rx_event \<Rightarrow> bool" where
  "is_prefetch (Prefetch m) = True"
| "is_prefetch ev = False"

lemma later_prefetches:
  "k \<le> length bufs \<Longrightarrow> concat (map (\<lambda>i. if i + 4 < length bufs then [bufs ! (i + 4)] else []) [0..<k]) =
     take k (drop 4 bufs)"
proof (induction k)
  case 0
  then show ?case by simp
next
  case (Suc k)
  then show ?case
    by (cases "k + 4 < length bufs") (simp_all add: take_Suc_conv_app_nth add.commute)
qed

lemma burst_prefetches: "filter is_prefetch (burst_trace t bufs) = map Prefetch bufs"
proof -
  have "filter is_prefetch (concat (map (buf_trace t bufs) is)) =
      map Prefetch (concat (map (\<lambda>i. if i + 4 < length bufs then [bufs ! (i + 4)] else []) is))" for "is"
    by (induction "is") (simp_all add: buf_trace_def)
  moreover have "filter is_prefetch (map Prefetch ms) = map Prefetch ms" for ms :: "'a list"
    by (induction ms) simp_all
  ultimately have "filter is_prefetch (burst_trace t bufs) = map Prefetch (take 4 bufs) @ map Prefetch (drop 4 bufs)"
    by (simp add: burst_trace_def later_prefetches)
  then show ?thesis by (simp only: map_append [symmetric] append_take_drop_id)
qed

lemma frees_of:
  "filter (\<lambda>ev. \<not> is_prefetch ev) (concat (map (buf_trace t bufs) is)) =
     concat (map (\<lambda>m. [Callback t m, Free m]) (map (\<lambda>i. bufs ! i) is))"
  by (induction "is") (simp_all add: buf_trace_def)

lemma frees_prefetch: "filter (\<lambda>ev. \<not> is_prefetch ev) (map Prefetch ms) = []"
  by (induction ms) simp_all

lemma burst_frees:
  "filter (\<lambda>ev. \<not> is_prefetch ev) (burst_trace t bufs) = concat (map (\<lambda>m. [Callback t m, Free m]) bufs)"
  by (simp only: burst_trace_def filter_append frees_of frees_prefetch map_nth append_Nil)

lemma rx_loop_trace:
  assumes "\<And>bufs. bufs \<in> set bursts \<Longrightarrow> returns cb bufs"
  shows "\<exists>w'. dpdk_rx_loop len cb ti bursts w = (Inr 0, w') \<and>
    device w' = device w @ concat (map (burst_trace (tthread_id ti)) bursts)"
proof -
  define w0 where "w0 = w\<lparr>log_lines := log_lines w @ [(INFO, ''Starting rx loop on thread_id: ''
       @ show_nat (unat (tthread_id ti)) @ '', port_id: '' @ show_nat (unat (tport_id ti)) @ '', queue_id: ''
       @ show_nat (unat (tqueue_id ti)))]\<rparr>"
  obtain w' where "for_each (process_burst len cb (tthread_id ti)) bursts w0 = (Inr (), w')"
    "device w' = device w0 @ concat (map (burst_trace (tthread_id ti)) bursts)"
    using for_each_trace [of bursts "process_burst len cb (tthread_id ti)" "burst_trace (tthread_id ti)" w0]
      process_burst_trace assms by blast
  then show ?thesis
    by (simp add: dpdk_rx_loop_def log_then thenp_run(2) w0_def ret_run)
qed

section \<open>The handler of the server as the callback\<close>

abbreviation server_callback :: "u16 \<Rightarrow> rte_mbuf \<Rightarrow> (rte_mbuf, int) rx_prog" where
  "server_callback thread_id m \<equiv> network_packet_handler thread_id (Some m)"

text \<open>A buffer the handler survives: its headers and its packet are in memory, and a UDP datagram
  that passes the length check has room for its own header.\<close>

definition sound_mbuf :: "rte_mbuf \<Rightarrow> bool" where
  "sound_mbuf m \<longleftrightarrow> 42 \<le> length (mem m) \<and> unat (pkt_len m) \<le> length (mem m) \<and> length (mem m) < 2 ^ 63 \<and>
     (wire16 (mem m) 12 = 0x0800 \<and> mem m ! 23 = 17 \<and> \<not> too_long m \<longrightarrow> 8 \<le> unat (wire16 (mem m) 38))"

lemma handler_returns:
  assumes "list_all sound_mbuf bufs"
  shows "returns server_callback bufs"
  unfolding returns_def
proof (intro ballI allI)
  fix m t and w :: "rte_mbuf rx_event list world"
  assume "m \<in> set bufs"
  with assms have m: "sound_mbuf m" by (simp add: list_all_iff)
  show "\<exists>r w'. network_packet_handler t (Some m) w = (Inr r, w') \<and> device w' = device w"
  proof (cases "wire16 (mem m) 12 = 0x0800 \<and> mem m ! 23 = 17 \<and> \<not> too_long m")
    case True
    then have "unat (ucast (wire16 (mem m) 38) - 8 :: u64) = unat (wire16 (mem m) 38) - 8"
      using m payload_len_unat [of "wire16 (mem m) 38"] by (simp add: sound_mbuf_def)
    then have "42 + unat (ucast (wire16 (mem m) 38) - 8 :: u64) \<le> length (mem m)"
      using True m by (simp add: sound_mbuf_def too_long_def)
    then show ?thesis
      using True m by (simp add: handler_run sound_mbuf_def thenp_run(2) [OF payload_in] ret_run)
  next
    case False
    then show ?thesis using m by (auto simp: handler_run sound_mbuf_def)
  qed
qed

section \<open>Properties\<close>

text \<open>C12: With a callback that returns, the loop gives every received buffer to the callback once and
  frees it once, right after its callback and in the order of arrival, and prefetches every
  buffer exactly once, also in order, never beyond the burst.\<close>

theorem rx_loop_frees_all:
  assumes "\<And>bufs. bufs \<in> set bursts \<Longrightarrow> returns cb bufs"
  shows "\<exists>w' evs. dpdk_rx_loop len cb ti bursts w = (Inr 0, w') \<and> device w' = device w @ evs \<and>
     filter (\<lambda>ev. \<not> is_prefetch ev) evs =
       concat (map (\<lambda>m. [Callback (tthread_id ti) m, Free m]) (concat bursts)) \<and>
     filter is_prefetch evs = map Prefetch (concat bursts)"
proof -
  let ?evs = "concat (map (burst_trace (tthread_id ti)) bursts)"
  have "filter (\<lambda>ev. \<not> is_prefetch ev) ?evs =
      concat (map (\<lambda>m. [Callback (tthread_id ti) m, Free m]) (concat bursts))"
    "filter is_prefetch ?evs = map Prefetch (concat bursts)"
    by (induction bursts) (simp_all add: burst_frees burst_prefetches)
  with rx_loop_trace [OF assms] show ?thesis by blast
qed

theorem rx_loop_frees_all_witness:
  "\<exists>w' evs. dpdk_rx_loop (\<lambda>_. 60) (\<lambda>t m. ret (- 1)) \<lparr>tport_id = 0, tqueue_id = 1, tthread_id = 1\<rparr>
      [[1 :: nat, 2], [], [3]] \<lparr>device = [], log_lines = []\<rparr> = (Inr 0, w') \<and> device w' = evs \<and>
     filter is_prefetch evs = map Prefetch [1, 2, 3]"
proof -
  have "returns (\<lambda>t m. ret (- 1)) bufs" for bufs :: "nat list"
    by (simp add: returns_def ret_run)
  then show ?thesis
    using rx_loop_frees_all [of "[[1 :: nat, 2], [], [3]]" "\<lambda>t m. ret (- 1)" "\<lambda>_. 60"
        "\<lparr>tport_id = 0, tqueue_id = 1, tthread_id = 1\<rparr>" "\<lparr>device = [], log_lines = []\<rparr>"] by auto
qed

text \<open>C31: With the handler of the server, a received UDP datagram whose length field is below 8 ends
  the loop with an access out of bounds, after the buffers in front of it were handled and
  freed; its own buffer and the ones behind it are never freed.\<close>

theorem rx_loop_short_datagram:
  assumes "list_all sound_mbuf bufs" and "42 \<le> length (mem m)" and "length (mem m) < 2 ^ 63"
    and "wire16 (mem m) 12 = 0x0800" and "mem m ! 23 = 17" and "\<not> too_long m"
    and "unat (wire16 (mem m) 38) < 8"
  shows "\<exists>w' evs. dpdk_rx_loop pkt_len server_callback ti [bufs @ m # rest] w = (Inl OutOfBounds, w') \<and>
     device w' = device w @ evs \<and>
     filter (\<lambda>ev. \<not> is_prefetch ev) evs =
       concat (map (\<lambda>m. [Callback (tthread_id ti) m, Free m]) bufs) @ [Callback (tthread_id ti) m]"
proof -
  let ?t = "tthread_id ti" and ?bufs = "bufs @ m # rest"
  let ?n = "length bufs" and ?body = "process_buf pkt_len server_callback (tthread_id ti) (bufs @ m # rest)"
  define w0 where "w0 = w\<lparr>log_lines := log_lines w @ [(INFO, ''Starting rx loop on thread_id: ''
       @ show_nat (unat ?t) @ '', port_id: '' @ show_nat (unat (tport_id ti)) @ '', queue_id: ''
       @ show_nat (unat (tqueue_id ti)))]\<rparr>"
  have "?bufs \<noteq> []" by simp
  then obtain w1 where w1: "process_burst pkt_len server_callback ?t ?bufs w0 = for_each ?body [0..<length ?bufs] w1"
    "device w1 = device w0 @ map Prefetch (take 4 ?bufs)"
    by (rule process_burst_start)
  have "\<exists>w'. ?body i w = (Inr (), w') \<and> device w' = device w @ buf_trace ?t ?bufs i"
    if "i \<in> set [0..<?n]" for i w
    using that returns_nth [OF handler_returns [OF assms(1)], of i]
    by (intro process_buf_trace) (simp_all add: nth_append)
  from for_each_trace [of "[0..<?n]" ?body "buf_trace ?t ?bufs" w1, OF this] obtain w2 where w2: "for_each ?body [0..<?n] w1 = (Inr (), w2)"
    "device w2 = device w1 @ concat (map (buf_trace ?t ?bufs) [0..<?n])"
    by blast
  obtain w3 where w3: "?body ?n w2 = (Inl OutOfBounds, w3)" "device w3 = device w2 @ [Callback ?t m]"
  proof -
    have "length (mem m) < 42 + unat (ucast (wire16 (mem m) 38) - 8 :: u64)"
      using assms(3,7) payload_len_unat [of "wire16 (mem m) 38"] by simp
    then have "bindp (server_callback ?t m) f w = (Inl OutOfBounds, w\<lparr>log_lines := log_lines w
        @ butlast (packet_lines (mem m) ?t 0)\<rparr>)" for f :: "int \<Rightarrow> (rte_mbuf, unit) rx_prog" and w
      using assms by (intro bindp_run(1)) (simp add: handler_run thenp_run(1) [OF payload_out])
    then have "fst (?body ?n w2) = Inl OutOfBounds \<and> device (snd (?body ?n w2)) = device w2 @ [Callback ?t m]"
      by (simp add: process_buf_def buf_at_in prog_then log_then rx_event_then)
    then show thesis
      by (intro that [of "snd (?body ?n w2)"]) (simp_all add: prod_eq_iff)
  qed
  have "[0..<length ?bufs] = [0..<?n] @ ?n # [Suc ?n..<length ?bufs]"
    by (simp add: upt_rec [of ?n] upt_add_eq_append [of 0 ?n "Suc (length rest)", simplified] Suc_le_eq)
  then have "process_burst pkt_len server_callback ?t ?bufs w0 = (Inl OutOfBounds, w3)"
    using w1(1) w2(1) w3(1) by (simp add: for_each_append thenp_run)
  then have "dpdk_rx_loop pkt_len server_callback ti [?bufs] w = (Inl OutOfBounds, w3)"
    by (simp add: dpdk_rx_loop_def log_then w0_def thenp_run)
  moreover have "map (\<lambda>i. ?bufs ! i) [0..<?n] = bufs"
    by (rule nth_equalityI) (simp_all add: nth_append)
  then have "filter (\<lambda>ev. \<not> is_prefetch ev) (map Prefetch (take 4 ?bufs) @ concat (map (buf_trace ?t ?bufs) [0..<?n])
      @ [Callback ?t m]) = concat (map (\<lambda>m. [Callback ?t m, Free m]) bufs) @ [Callback ?t m]"
    by (simp only: filter_append frees_of frees_prefetch append_Nil) simp
  moreover have "device w3 = device w @ map Prefetch (take 4 ?bufs) @ concat (map (buf_trace ?t ?bufs) [0..<?n])
      @ [Callback ?t m]"
    using w1(2) w2(2) w3(2) by (simp add: w0_def)
  ultimately show ?thesis by blast
qed

theorem rx_loop_short_datagram_witness:
  "fst (dpdk_rx_loop pkt_len server_callback \<lparr>tport_id = 0, tqueue_id = 0, tthread_id = 0\<rparr>
     [[example_mbuf 10 [0xDE, 0xAD], example_mbuf 7 [0xDE, 0xAD], example_mbuf 10 [0xDE, 0xAD]]]
     \<lparr>device = [], log_lines = []\<rparr>) = Inl OutOfBounds"
  using rx_loop_short_datagram [of "[example_mbuf 10 [0xDE, 0xAD]]" "example_mbuf 7 [0xDE, 0xAD]"
      "\<lparr>tport_id = 0, tqueue_id = 0, tthread_id = 0\<rparr>" "[example_mbuf 10 [0xDE, 0xAD]]" "\<lparr>device = [], log_lines = []\<rparr>"]
  by (auto simp: example_mbuf_facts sound_mbuf_def too_long_def)

end
