(* ===== verification/Dpdk_Threads.thy ===== *)
theory Dpdk_Threads
  imports Filter_Prelude
begin

text \<open>
  The threads of the class \<open>DPDK\<close> (\<open>dpdk.cc\<close>) and how they wait for each other, as a step
  relation: the program's main thread (constructor, \<open>register_callback\<close> for each requested
  thread, destructor), the thread \<open>main_thread_\<close> (\<open>init_dpdk\<close>, then the receive loop 0) and the
  receive loops 1 to \<open>n - 1\<close>. A thread that waits on a condition variable is woken by a
  notification that comes after it started to wait, or without cause (a spurious wake-up, allowed
  by the flag \<open>spur\<close>). \<open>n\<close> is the number of threads of the object, \<open>m\<close> the number the program
  asked for and registers; a registration fails its assertion while the table of threads does not
  have the entry (the table counts as filled from the notification on). The calls to DPDK succeed
  here: one that fails aborts the process, which \<open>Dpdk_Init\<close> shows. What the loops do with
  packets is \<open>Dpdk_Rx\<close>.
\<close>

section \<open>States\<close>

datatype main_pc =
    CtorStart            \<comment> \<open>\<open>main_thread_\<close> created, before the wait\<close>
  | CtorWaiting          \<comment> \<open>in \<open>init_cv_.wait\<close>\<close>
  | Register nat         \<comment> \<open>about to register this thread\<close>
  | Notify nat           \<comment> \<open>callback stored, before the notification\<close>
  | Running
  | Joining              \<comment> \<open>\<open>force_quit_\<close> set, in \<open>main_thread_.join\<close>\<close>
  | WaitingLcores        \<comment> \<open>in \<open>rte_eal_mp_wait_lcore\<close>\<close>
  | Down
  | Crashed

datatype init_pc = Init | Launch nat | InRxLoop

datatype loop_pc =
    Off
  | Entry                \<comment> \<open>about to take the mutex and evaluate the predicate\<close>
  | Checked              \<comment> \<open>predicate false, mutex still held\<close>
  | Sleeping
  | Looping
  | Exited

record tstate =
  main :: main_pc
  init :: init_pc
  pc :: "nat \<Rightarrow> loop_pc"
  cb :: "nat \<Rightarrow> bool"
  quit :: bool

definition tstart :: tstate where
  "tstart = \<lparr>main = CtorStart, init = Init, pc = (\<lambda>_. Off), cb = (\<lambda>_. False), quit = False\<rparr>"

section \<open>Steps\<close>

inductive tstep :: "bool \<Rightarrow> nat \<Rightarrow> nat \<Rightarrow> tstate \<Rightarrow> tstate \<Rightarrow> bool" for spur m n where
  ctor_wait: "main s = CtorStart \<Longrightarrow> tstep spur m n s (s\<lparr>main := CtorWaiting\<rparr>)"
| ctor_spurious: "spur \<Longrightarrow> main s = CtorWaiting \<Longrightarrow> tstep spur m n s (s\<lparr>main := Register 0\<rparr>)"
| init_notify: "init s = Init \<Longrightarrow>
    tstep spur m n s (s\<lparr>init := Launch 1, main := if main s = CtorWaiting then Register 0 else main s\<rparr>)"
| launch: "init s = Launch k \<Longrightarrow> k < n \<Longrightarrow>
    tstep spur m n s (s\<lparr>init := Launch (Suc k), pc := (pc s)(k := Entry)\<rparr>)"
| launch_own: "init s = Launch k \<Longrightarrow> \<not> k < n \<Longrightarrow> 0 < n \<Longrightarrow>
    tstep spur m n s (s\<lparr>init := InRxLoop, pc := (pc s)(0 := Entry)\<rparr>)"
| register_invalid: "main s = Register k \<Longrightarrow> k < m \<Longrightarrow> init s = Init \<or> n \<le> k \<Longrightarrow>
    tstep spur m n s (s\<lparr>main := Crashed\<rparr>)"
| set_callback: "main s = Register k \<Longrightarrow> k < m \<Longrightarrow> init s \<noteq> Init \<Longrightarrow> k < n \<Longrightarrow>
    tstep spur m n s (s\<lparr>cb := (cb s)(k := True), main := Notify k\<rparr>)"
| notify: "main s = Notify k \<Longrightarrow> pc s k \<noteq> Checked \<Longrightarrow>
    tstep spur m n s (s\<lparr>main := Register (Suc k),
      pc := if pc s k = Sleeping then (pc s)(k := Entry) else pc s\<rparr>)"
| registered: "main s = Register k \<Longrightarrow> \<not> k < m \<Longrightarrow> tstep spur m n s (s\<lparr>main := Running\<rparr>)"
| trigger: "main s = Running \<Longrightarrow> tstep spur m n s (s\<lparr>quit := True, main := Joining\<rparr>)"
| joined: "main s = Joining \<Longrightarrow> pc s 0 = Exited \<Longrightarrow> tstep spur m n s (s\<lparr>main := WaitingLcores\<rparr>)"
| all_exited: "main s = WaitingLcores \<Longrightarrow> (\<forall>k<n. pc s k = Exited) \<Longrightarrow> tstep spur m n s (s\<lparr>main := Down\<rparr>)"
| enter_loop: "pc s k = Entry \<Longrightarrow> quit s \<or> cb s k \<Longrightarrow> tstep spur m n s (s\<lparr>pc := (pc s)(k := Looping)\<rparr>)"
| enter_wait: "pc s k = Entry \<Longrightarrow> \<not> (quit s \<or> cb s k) \<Longrightarrow> tstep spur m n s (s\<lparr>pc := (pc s)(k := Checked)\<rparr>)"
| sleep: "pc s k = Checked \<Longrightarrow> tstep spur m n s (s\<lparr>pc := (pc s)(k := Sleeping)\<rparr>)"
| wake_spurious: "spur \<Longrightarrow> pc s k = Sleeping \<Longrightarrow> tstep spur m n s (s\<lparr>pc := (pc s)(k := Entry)\<rparr>)"
| leave: "pc s k = Looping \<Longrightarrow> quit s \<Longrightarrow> tstep spur m n s (s\<lparr>pc := (pc s)(k := Exited)\<rparr>)"

inductive_cases tstepE: "tstep spur m n s s'"

abbreviation tsteps :: "bool \<Rightarrow> nat \<Rightarrow> nat \<Rightarrow> tstate \<Rightarrow> tstate \<Rightarrow> bool" where
  "tsteps spur m n \<equiv> (tstep spur m n)\<^sup>*\<^sup>*"

section \<open>Invariants\<close>

text \<open>How many callbacks have been registered and notified.\<close>

fun done_callbacks :: "nat \<Rightarrow> main_pc \<Rightarrow> nat" where
  "done_callbacks m (Register k) = k"
| "done_callbacks m (Notify k) = k"
| "done_callbacks m Running = m"
| "done_callbacks m Joining = m"
| "done_callbacks m WaitingLcores = m"
| "done_callbacks m Down = m"
| "done_callbacks m _ = 0"

definition callback_inv :: "nat \<Rightarrow> tstate \<Rightarrow> bool" where
  "callback_inv m s \<longleftrightarrow>
     (\<forall>k < done_callbacks m (main s). cb s k \<and> pc s k \<noteq> Checked \<and> pc s k \<noteq> Sleeping) \<and>
     (\<forall>k. main s = Notify k \<longrightarrow> k < m \<and> cb s k) \<and> (\<forall>k. main s = Register k \<longrightarrow> k \<le> m)"

lemma callback_inv_step: "tstep spur m n s s' \<Longrightarrow> callback_inv m s \<Longrightarrow> callback_inv m s'"
  by (erule tstepE) (auto simp: callback_inv_def less_Suc_eq)

text \<open>Which loops have been launched.\<close>

definition launch_inv :: "nat \<Rightarrow> tstate \<Rightarrow> bool" where
  "launch_inv n s \<longleftrightarrow>
     (case init s of
        Init \<Rightarrow> \<forall>k. pc s k = Off
      | Launch j \<Rightarrow> 0 < j \<and> (\<forall>k. pc s k = Off \<longleftrightarrow> k = 0 \<or> j \<le> k)
      | InRxLoop \<Rightarrow> \<forall>k<n. pc s k \<noteq> Off)"

text \<open>Only three steps move the initialisation or launch a loop.\<close>

lemma tstep_launches:
  assumes "tstep spur m n s s'"
  obtains (same) "init s' = init s" "\<And>k. pc s' k = Off \<longleftrightarrow> pc s k = Off"
  | (notified) "init s = Init" "init s' = Launch 1" "pc s' = pc s"
  | (launched) j where "init s = Launch j" "j < n" "init s' = Launch (Suc j)" "pc s' = (pc s)(j := Entry)"
  | (own) j where "init s = Launch j" "\<not> j < n" "init s' = InRxLoop" "pc s' = (pc s)(0 := Entry)"
  using assms by (rule tstepE) (auto split: if_splits)

lemma launch_inv_step:
  assumes "tstep spur m n s s'" and "launch_inv n s"
  shows "launch_inv n s'"
  using assms(1)
proof (cases rule: tstep_launches)
  case same
  then show ?thesis using assms(2) by (cases "init s") (simp_all add: launch_inv_def)
next
  case notified
  then show ?thesis using assms(2) by (auto simp: launch_inv_def Suc_le_eq)
next
  case (launched j)
  then have o: "pc s k = Off \<longleftrightarrow> k = 0 \<or> j \<le> k" "0 < j" for k
    using assms(2) by (simp_all add: launch_inv_def)
  have "pc s' k = Off \<longleftrightarrow> k = 0 \<or> Suc j \<le> k" for k
    using o launched(4) by (cases "k = j") (simp, simp, arith)
  then show ?thesis using launched(3) by (simp add: launch_inv_def)
next
  case (own j)
  then show ?thesis using assms(2) by (auto simp: launch_inv_def)
qed

text \<open>The program has moved on only after the initialisation notified it, unless it was woken too
  early and crashed; the flag is set exactly from the shutdown on.\<close>

definition order_inv :: "nat \<Rightarrow> tstate \<Rightarrow> bool" where
  "order_inv m s \<longleftrightarrow>
     (init s = Init \<longrightarrow> main s \<in> {CtorStart, CtorWaiting, Register 0, Crashed} \<or> m = 0) \<and>
     (quit s \<longleftrightarrow> main s \<in> {Joining, WaitingLcores, Down})"

lemma order_inv_step: "tstep spur m n s s' \<Longrightarrow> order_inv m s \<Longrightarrow> order_inv m s'"
  by (erule tstepE) (auto simp: order_inv_def split: if_splits)

lemma tstart_invs: "callback_inv m tstart" "launch_inv n tstart" "order_inv m tstart"
  by (simp_all add: callback_inv_def launch_inv_def order_inv_def tstart_def)

text \<open>The invariants hold in every reachable state.\<close>

lemma reachable_invs:
  assumes "tsteps spur m n tstart s"
  shows "callback_inv m s" and "launch_inv n s" and "order_inv m s"
  using assms
  by (induction rule: rtranclp_induct)
    (auto intro: tstart_invs callback_inv_step launch_inv_step order_inv_step)

section \<open>The shutdown\<close>

fun loop_weight :: "loop_pc \<Rightarrow> nat" where
  "loop_weight Off = 5"
| "loop_weight Checked = 4"
| "loop_weight Sleeping = 3"
| "loop_weight Entry = 2"
| "loop_weight Looping = 1"
| "loop_weight Exited = 0"

fun main_weight :: "main_pc \<Rightarrow> nat" where
  "main_weight Joining = 2"
| "main_weight WaitingLcores = 1"
| "main_weight _ = 0"

definition shutdown_measure :: "nat \<Rightarrow> tstate \<Rightarrow> nat" where
  "shutdown_measure n s = (\<Sum>k<n. loop_weight (pc s k)) + main_weight (main s)"

lemma sum_upd:
  fixes f :: "'a \<Rightarrow> nat" and n :: nat
  assumes "k < n" and "f x < f (g k)"
  shows "(\<Sum>i<n. f ((g(k := x)) i)) < (\<Sum>i<n. f (g i))"
proof (rule sum_strict_mono_ex1)
  show "finite {..<n}" by simp
  show "\<forall>i\<in>{..<n}. f ((g(k := x)) i) \<le> f (g i)" using assms(2) by simp
  show "\<exists>i\<in>{..<n}. f ((g(k := x)) i) < f (g i)" using assms by auto
qed

definition stopping :: "tstate \<Rightarrow> bool" where
  "stopping s \<longleftrightarrow> quit s \<and> main s \<in> {Joining, WaitingLcores}"

lemma launch_bound: "tstep spur m n s s' \<Longrightarrow> (\<forall>k. n \<le> k \<longrightarrow> pc s k = Off) \<Longrightarrow> (\<forall>k. n \<le> k \<longrightarrow> pc s' k = Off)"
  by (erule tstepE) (auto split: if_splits)

lemma reachable_bound: "tsteps spur m n tstart s \<Longrightarrow> n \<le> k \<Longrightarrow> pc s k = Off"
proof -
  assume r: "tsteps spur m n tstart s" and "n \<le> k"
  from r have "\<forall>k. n \<le> k \<longrightarrow> pc s k = Off"
    by (induction rule: rtranclp_induct) (simp add: tstart_def, metis launch_bound)
  with \<open>n \<le> k\<close> show ?thesis by simp
qed

text \<open>Without spurious wake-ups every step of a shutdown comes closer to its end.\<close>

lemma shutdown_decreases:
  assumes "tstep False m n s s'" and "stopping s" and "launch_inv n s" and "\<And>k. n \<le> k \<Longrightarrow> pc s k = Off"
    and "init s \<noteq> Init"
  shows "shutdown_measure n s' < shutdown_measure n s"
proof -
  have n: "k < n" if "pc s k \<noteq> Off" for k
    using assms(4) that by (metis not_less)
  have step: "shutdown_measure n s' < shutdown_measure n s"
    if "k < n" "pc s' = (pc s)(k := x)" "main s' = main s" "loop_weight x < loop_weight (pc s k)" for k x
    using sum_upd [of k n loop_weight x "pc s"] that by (simp add: shutdown_measure_def del: fun_upd_apply)
  have off: "pc s k = Off" if "init s = Launch j" "k = 0 \<or> j \<le> k" for j k
    using assms(3) that by (simp add: launch_inv_def)
  show ?thesis
    using assms(1)
  proof (rule tstepE)
    fix k
    assume "s' = s\<lparr>init := Launch (Suc k), pc := (pc s)(k := Entry)\<rparr>" "init s = Launch k" "k < n"
    then show ?thesis using off [of k k] by (intro step [of k Entry]) simp_all
  next
    fix k
    assume "s' = s\<lparr>init := InRxLoop, pc := (pc s)(0 := Entry)\<rparr>" "init s = Launch k" "0 < n"
    then show ?thesis using off [of k 0] by (intro step [of 0 Entry]) simp_all
  next
    fix k
    assume "s' = s\<lparr>pc := (pc s)(k := Looping)\<rparr>" "pc s k = Entry"
    then show ?thesis using n [of k] by (intro step [of k Looping]) simp_all
  next
    fix k
    assume "s' = s\<lparr>pc := (pc s)(k := Sleeping)\<rparr>" "pc s k = Checked"
    then show ?thesis using n [of k] by (intro step [of k Sleeping]) simp_all
  next
    fix k
    assume "s' = s\<lparr>pc := (pc s)(k := Exited)\<rparr>" "pc s k = Looping"
    then show ?thesis using n [of k] by (intro step [of k Exited]) simp_all
  qed (use assms(2,5) in \<open>auto simp: stopping_def shutdown_measure_def\<close>)
qed

text \<open>When every loop has its callback, a shutdown is never stuck.\<close>

lemma shutdown_progress:
  assumes "stopping s" and "callback_inv n s" and "launch_inv n s" and "init s \<noteq> Init" and "0 < n"
  shows "\<exists>s'. tstep False n n s s' \<and> (stopping s' \<or> main s' = Down) \<and> init s' \<noteq> Init"
proof (cases "init s")
  case Init
  with assms(4) show ?thesis by simp
next
  case (Launch j)
  show ?thesis
  proof (cases "j < n")
    case True
    from tstep.launch [OF Launch True] assms(1) show ?thesis by (fastforce simp: stopping_def)
  next
    case False
    from tstep.launch_own [OF Launch False assms(5)] assms(1) show ?thesis by (fastforce simp: stopping_def)
  qed
next
  case InRxLoop
  have awake: "pc s k \<in> {Entry, Looping, Exited}" if "k < n" for k
    using assms(1-3) that InRxLoop by (cases "pc s k") (auto simp: callback_inv_def launch_inv_def stopping_def)
  show ?thesis
  proof (cases "\<forall>k<n. pc s k = Exited")
    case True
    show ?thesis
    proof (cases "main s = Joining")
      case j: True
      have "pc s 0 = Exited" using True assms(5) by simp
      from tstep.joined [OF j this] assms(1) InRxLoop show ?thesis by (fastforce simp: stopping_def)
    next
      case False
      then have "main s = WaitingLcores" using assms(1) by (simp add: stopping_def)
      from tstep.all_exited [OF this True] InRxLoop show ?thesis by fastforce
    qed
  next
    case False
    then obtain k where k: "k < n" "pc s k \<noteq> Exited" by blast
    then have "pc s k = Entry \<or> pc s k = Looping" using awake [of k] by auto
    then show ?thesis
    proof
      assume e: "pc s k = Entry"
      from tstep.enter_loop [OF e] assms(1) InRxLoop show ?thesis by (fastforce simp: stopping_def)
    next
      assume l: "pc s k = Looping"
      from tstep.leave [OF l] assms(1) InRxLoop show ?thesis by (fastforce simp: stopping_def)
    qed
  qed
qed

section \<open>Some runs\<close>

abbreviation tst where "tst m i p c q \<equiv> \<lparr>main = m, init = i, pc = p, cb = c, quit = q\<rparr>"

text \<open>One registered thread of two: the other falls asleep, then the program shuts down.\<close>

lemma sleeping_run:
  "tsteps False 1 2 tstart (tst Joining (Launch 2) ((\<lambda>_. Off)(1 := Sleeping)) ((\<lambda>_. False)(0 := True)) True)"
proof -
  let ?o = "\<lambda>_. Off" and ?f = "\<lambda>_. False"
  let ?s = "\<lambda>m i p. tst m i (?o(1 := p)) ?f False"
  have e [simp]: "?o(Suc 0 := Off) = ?o" by auto
  note [trans] = rtranclp_trans
  have "tsteps False 1 2 tstart (?s CtorWaiting Init Off)"
    using tstep.ctor_wait [of tstart False 1 2] by (simp add: tstart_def r_into_rtranclp)
  also have "tsteps False 1 2 \<dots> (?s (Register 0) (Launch 1) Off)"
    using tstep.init_notify [of "?s CtorWaiting Init Off" False 1 2] by (simp add: r_into_rtranclp)
  also have "tsteps False 1 2 \<dots> (?s (Register 0) (Launch 2) Entry)"
    using tstep.launch [of "?s (Register 0) (Launch 1) Off" 1 2 False 1]
    by (simp add: r_into_rtranclp numeral_2_eq_2)
  also have "tsteps False 1 2 \<dots> (?s (Register 0) (Launch 2) Checked)"
    using tstep.enter_wait [of "?s (Register 0) (Launch 2) Entry" 1 False 1 2] by (simp add: r_into_rtranclp)
  also have "tsteps False 1 2 \<dots> (?s (Register 0) (Launch 2) Sleeping)"
    using tstep.sleep [of "?s (Register 0) (Launch 2) Checked" 1 False 1 2] by (simp add: r_into_rtranclp)
  also have "tsteps False 1 2 \<dots> (tst (Notify 0) (Launch 2) (?o(1 := Sleeping)) (?f(0 := True)) False)"
    using tstep.set_callback [of "?s (Register 0) (Launch 2) Sleeping" 0 1 2 False] by (simp add: r_into_rtranclp)
  also have "tsteps False 1 2 \<dots> (tst (Register 1) (Launch 2) (?o(1 := Sleeping)) (?f(0 := True)) False)"
    using tstep.notify [of "tst (Notify 0) (Launch 2) (?o(1 := Sleeping)) (?f(0 := True)) False" 0 False 1 2]
    by (simp add: r_into_rtranclp)
  also have "tsteps False 1 2 \<dots> (tst Running (Launch 2) (?o(1 := Sleeping)) (?f(0 := True)) False)"
    using tstep.registered [of "tst (Register 1) (Launch 2) (?o(1 := Sleeping)) (?f(0 := True)) False" 1 1 False 2]
    by (simp add: r_into_rtranclp)
  also have "tsteps False 1 2 \<dots> (tst Joining (Launch 2) (?o(1 := Sleeping)) (?f(0 := True)) True)"
    using tstep.trigger [of "tst Running (Launch 2) (?o(1 := Sleeping)) (?f(0 := True)) False" False 1 2]
    by (simp add: r_into_rtranclp)
  finally show ?thesis .
qed

text \<open>One thread, registered and receiving, when the program shuts down.\<close>

lemma stopping_run:
  "tsteps False 1 1 tstart (tst Joining InRxLoop ((\<lambda>_. Off)(0 := Looping)) ((\<lambda>_. False)(0 := True)) True)"
proof -
  let ?o = "\<lambda>_. Off" and ?f = "\<lambda>_. False"
  let ?p = "?o(0 := Entry)" and ?q = "?o(0 := Looping)" and ?c = "?f(0 := True)"
  note [trans] = rtranclp_trans
  have "tsteps False 1 1 tstart (tst CtorWaiting Init ?o ?f False)"
    using tstep.ctor_wait [of tstart False 1 1] by (simp add: tstart_def r_into_rtranclp)
  also have "tsteps False 1 1 \<dots> (tst (Register 0) (Launch 1) ?o ?f False)"
    using tstep.init_notify [of "tst CtorWaiting Init ?o ?f False" False 1 1] by (simp add: r_into_rtranclp)
  also have "tsteps False 1 1 \<dots> (tst (Register 0) InRxLoop ?p ?f False)"
    using tstep.launch_own [of "tst (Register 0) (Launch 1) ?o ?f False" 1 1 False 1] by (simp add: r_into_rtranclp)
  also have "tsteps False 1 1 \<dots> (tst (Notify 0) InRxLoop ?p ?c False)"
    using tstep.set_callback [of "tst (Register 0) InRxLoop ?p ?f False" 0 1 1 False] by (simp add: r_into_rtranclp)
  also have "tsteps False 1 1 \<dots> (tst (Register 1) InRxLoop ?p ?c False)"
    using tstep.notify [of "tst (Notify 0) InRxLoop ?p ?c False" 0 False 1 1] by (simp add: r_into_rtranclp)
  also have "tsteps False 1 1 \<dots> (tst (Register 1) InRxLoop ?q ?c False)"
    using tstep.enter_loop [of "tst (Register 1) InRxLoop ?p ?c False" 0 False 1 1] by (simp add: r_into_rtranclp)
  also have "tsteps False 1 1 \<dots> (tst Running InRxLoop ?q ?c False)"
    using tstep.registered [of "tst (Register 1) InRxLoop ?q ?c False" 1 1 False 1] by (simp add: r_into_rtranclp)
  also have "tsteps False 1 1 \<dots> (tst Joining InRxLoop ?q ?c True)"
    using tstep.trigger [of "tst Running InRxLoop ?q ?c False" False 1 1] by (simp add: r_into_rtranclp)
  finally show ?thesis .
qed

text \<open>A spurious wake-up ends the constructor before the table of threads exists; the first
  registration then fails its assertion.\<close>

lemma spurious_crash:
  assumes "0 < m"
  shows "\<exists>s. tsteps True m n tstart s \<and> main s = Crashed"
proof -
  let ?w = "tst CtorWaiting Init (\<lambda>_. Off) (\<lambda>_. False) False"
  let ?r = "tst (Register 0) Init (\<lambda>_. Off) (\<lambda>_. False) False"
  have "tstep True m n tstart ?w"
    using tstep.ctor_wait [of tstart True m n] by (simp add: tstart_def)
  moreover have "tstep True m n ?w ?r"
    using tstep.ctor_spurious [of True ?w m n] by simp
  moreover have "tstep True m n ?r (tst Crashed Init (\<lambda>_. Off) (\<lambda>_. False) False)"
    using tstep.register_invalid [of ?r 0 m n True] assms by simp
  ultimately have "tsteps True m n tstart (tst Crashed Init (\<lambda>_. Off) (\<lambda>_. False) False)"
    by (meson converse_rtranclp_into_rtranclp r_into_rtranclp)
  then show ?thesis by (metis tstate.select_convs(1))
qed

section \<open>Properties\<close>

text \<open>C13: No registered callback is missed: in every reachable state, spurious wake-ups or not, a
  loop whose registration is complete neither sleeps nor is about to, and the program reaches
  the registration of the next thread only with the callback of this one in place.\<close>

theorem no_missed_callback:
  assumes "tsteps spur m n tstart s" and "k < done_callbacks m (main s)"
  shows "cb s k \<and> pc s k \<noteq> Checked \<and> pc s k \<noteq> Sleeping"
  using reachable_invs(1) [OF assms(1)] assms(2) by (simp add: callback_inv_def)

theorem no_missed_callback_witness:
  "cb (tst Joining (Launch 2) ((\<lambda>_. Off)(1 := Sleeping)) ((\<lambda>_. False)(0 := True)) True) 0"
  using no_missed_callback [OF sleeping_run, of 0] by simp

text \<open>C14: When the program registers a callback for every thread, each shutdown comes to its end:
  from every reachable state with \<open>force_quit_\<close> set there is a run in which all loops leave, and
  every step, whichever thread makes it, brings the end closer.\<close>

theorem shutdown_completes:
  assumes "tsteps False n n tstart s" and "stopping s" and "0 < n"
  shows "(\<exists>s'. tsteps False n n s s' \<and> main s' = Down) \<and>
     (\<forall>s'. tstep False n n s s' \<longrightarrow> shutdown_measure n s' < shutdown_measure n s)"
proof -
  have i: "init s \<noteq> Init"
    using reachable_invs(3) [OF assms(1)] assms(2,3) by (auto simp: order_inv_def stopping_def)
  have "\<exists>s'. tsteps False n n s s' \<and> main s' = Down"
    using assms(1,2) i
  proof (induction "shutdown_measure n s" arbitrary: s rule: less_induct)
    case less
    note inv = reachable_invs [OF less.prems(1)] reachable_bound [OF less.prems(1)]
    obtain s' where s': "tstep False n n s s'" "stopping s' \<or> main s' = Down" "init s' \<noteq> Init"
      using shutdown_progress [OF less.prems(2) inv(1,2) less.prems(3) assms(3)] by blast
    show ?case
    proof (cases "main s' = Down")
      case True
      with s'(1) show ?thesis by blast
    next
      case False
      have "shutdown_measure n s' < shutdown_measure n s"
        by (rule shutdown_decreases [OF s'(1) less.prems(2) inv(2) inv(4) less.prems(3)])
      moreover have "tsteps False n n tstart s'" using less.prems(1) s'(1) by simp
      ultimately obtain s'' where "tsteps False n n s' s''" "main s'' = Down"
        using less.hyps [of s'] s'(2,3) False by blast
      with s'(1) show ?thesis by (meson converse_rtranclp_into_rtranclp)
    qed
  qed
  with shutdown_decreases [OF _ assms(2) reachable_invs(2) [OF assms(1)] reachable_bound [OF assms(1)] i]
  show ?thesis by blast
qed

theorem shutdown_completes_witness:
  "\<exists>s'. tsteps False 1 1 (tst Joining InRxLoop ((\<lambda>_. Off)(0 := Looping)) ((\<lambda>_. False)(0 := True)) True) s' \<and>
     main s' = Down"
  using shutdown_completes [OF stopping_run] by (simp add: stopping_def)

text \<open>C15: The constructor waits without a predicate. If the initialisation notifies before the
  constructor waits, the wake-up is lost: without a spurious one the program stays in the
  constructor for ever.\<close>

theorem constructor_lost_wakeup:
  assumes "init s \<noteq> Init" and "main s \<in> {CtorStart, CtorWaiting}" and "tsteps False m n s s'"
  shows "main s' \<in> {CtorStart, CtorWaiting}"
proof -
  have "init s' \<noteq> Init \<and> main s' \<in> {CtorStart, CtorWaiting}"
    using assms(3)
  proof (induction rule: rtranclp_induct)
    case base
    then show ?case using assms(1,2) by simp
  next
    case (step t t')
    from step.hyps(2) show ?case by (rule tstepE) (use step.IH in auto)
  qed
  then show ?thesis by simp
qed

theorem constructor_lost_wakeup_witness:
  "let s = tstart\<lparr>init := Launch 1\<rparr> in
   tsteps False 1 1 tstart s \<and> (\<forall>s'. tsteps False 1 1 s s' \<longrightarrow> main s' \<in> {CtorStart, CtorWaiting})"
proof -
  let ?s = "tstart\<lparr>init := Launch 1\<rparr>"
  have "tsteps False 1 1 tstart ?s"
    using tstep.init_notify [of tstart False 1 1] by (simp add: tstart_def r_into_rtranclp)
  moreover have "init ?s \<noteq> Init" "main ?s \<in> {CtorStart, CtorWaiting}"
    by (simp_all add: tstart_def)
  ultimately show ?thesis using constructor_lost_wakeup [of ?s 1 1]
    by (simp only: Let_def) blast
qed

text \<open>C16: A loop that sleeps for a callback nobody registers, as the threads that the rounding
  adds, is not woken by the shutdown, which sets \<open>force_quit_\<close> without a notification: the
  destructor waits for ever.\<close>

theorem shutdown_hangs:
  assumes "tsteps False m n tstart s" and "m \<le> k" and "k < n" and "pc s k = Sleeping"
    and "main s \<noteq> Down" and "tsteps False m n s s'"
  shows "pc s' k = Sleeping \<and> main s' \<noteq> Down"
  using assms(6)
proof (induction rule: rtranclp_induct)
  case base
  then show ?case using assms(4,5) by simp
next
  case (step t t')
  have r: "tsteps False m n tstart t" using assms(1) step.hyps(1) by simp
  have c: "j < m" if "main t = Notify j" for j
    using reachable_invs(1) [OF r] that by (simp add: callback_inv_def)
  have l: "j \<noteq> k \<and> k \<noteq> 0" if "init t = Launch j" for j
  proof -
    have "pc t i = Off \<longleftrightarrow> i = 0 \<or> j \<le> i" for i
      using reachable_invs(2) [OF r] that by (simp add: launch_inv_def)
    then have "\<not> (k = 0 \<or> j \<le> k)" using step.IH by (metis loop_pc.distinct(5))
    then show ?thesis by auto
  qed
  from step.hyps(2) show ?case
    by (rule tstepE) (use step.IH assms(2,3) c l in auto)
qed

theorem shutdown_hangs_witness:
  "let s = \<lparr>main = Joining, init = Launch 2, pc = (\<lambda>_. Off)(1 := Sleeping), cb = (\<lambda>_. False)(0 := True),
       quit = True\<rparr>
   in tsteps False 1 2 tstart s \<and> (\<forall>s'. tsteps False 1 2 s s' \<longrightarrow> main s' \<noteq> Down)"
  using sleeping_run shutdown_hangs [OF sleeping_run, of 1] by (auto simp: Let_def)

end
