(* ===== verification/Main_Program.thy ===== *)
theory Main_Program
  imports Filter_Rules
begin

text \<open>
  The main program of the server (\<open>main.cc\<close>): the command line and \<open>main\<close>. \<open>getopt\<close> is the list
  of the options it returns, each a character with its argument (\<open>?\<close> for an unknown option);
  \<open>std::getline\<close> is modelled from the language standard. The \<open>DPDK\<close> object is a parameter of
  \<open>main\<close> here: its constructor, \<open>register_callback\<close> and the destructor, which runs when \<open>main\<close>
  returns and may block for ever, are the theories \<open>Dpdk_Init\<close> and \<open>Dpdk_Threads\<close>. The class
  \<open>Timeout\<close> and the signal handler are the theory \<open>Timeout\<close>.
\<close>

section \<open>Command line\<close>

record arguments =
  dpdk_config :: "string option"
  num_threads :: u16
  duration :: u32
  filter_list :: "string list"

definition default_arguments :: arguments where
  "default_arguments = \<lparr>dpdk_config = None, num_threads = 1, duration = 10, filter_list = []\<rparr>"

text \<open>The tokens of repeated \<open>std::getline\<close> with a delimiter.\<close>

function getlines :: "char \<Rightarrow> string \<Rightarrow> string list" where
  "getlines d s =
     (if s = [] then []
      else takeWhile (\<lambda>c. c \<noteq> d) s # getlines d (drop 1 (dropWhile (\<lambda>c. c \<noteq> d) s)))"
  by pat_completeness auto
termination
proof (relation "measure (length \<circ> snd)")
  fix d :: char and s :: string
  assume "s \<noteq> []"
  then have "0 < length s" by simp
  moreover have "length (dropWhile (\<lambda>c. c \<noteq> d) s) \<le> length s" by (rule length_dropWhile_le)
  ultimately show "((d, drop 1 (dropWhile (\<lambda>c. c \<noteq> d) s)), d, s) \<in> measure (length \<circ> snd)"
    by (simp only: in_measure comp_apply snd_conv length_drop)
qed simp

declare getlines.simps [simp del]

definition stoi_prog :: "string \<Rightarrow> ('s, int) prog" where
  "stoi_prog s = (case stoi s of Inl e \<Rightarrow> raise (Uncaught e) | Inr v \<Rightarrow> ret v)"

definition parse_option :: "string \<Rightarrow> char \<times> string \<Rightarrow> arguments \<Rightarrow> ('d world, arguments) prog" where
  "parse_option argv0 = (\<lambda>(c, optarg) a.
     if c = CHR ''c'' then ret (a\<lparr>dpdk_config := Some optarg\<rparr>)
     else if c = CHR ''t'' then
       bindp (stoi_prog optarg) (\<lambda>v. ret (a\<lparr>num_threads := word_of_int v\<rparr>))
     else if c = CHR ''d'' then
       bindp (stoi_prog optarg) (\<lambda>v. ret (a\<lparr>duration := word_of_int v\<rparr>))
     else if c = CHR ''f'' then ret (a\<lparr>filter_list := filter_list a @ getlines (CHR '','') optarg\<rparr>)
     else thenp (log_msg INFO (''Usage: '' @ argv0
         @ '' -c <dpdk_config> -t <num_threads> -d <duration> -f <filter_list>''))
       (log_fatal (''Unknown option: '' @ [c])))"

primrec parse_options :: "string \<Rightarrow> (char \<times> string) list \<Rightarrow> arguments \<Rightarrow> ('d world, arguments) prog" where
  "parse_options argv0 [] a = ret a"
| "parse_options argv0 (x # opts) a = bindp (parse_option argv0 x a) (parse_options argv0 opts)"

definition parse_args :: "string \<Rightarrow> (char \<times> string) list \<Rightarrow> arguments \<Rightarrow> ('d world, arguments) prog" where
  "parse_args argv0 opts a =
     bindp (parse_options argv0 opts a) (\<lambda>a.
     if dpdk_config a = None
     then log_fatal ''DPDK configuration string is required. Use -c option.'' else ret a)"

section \<open>The program\<close>


section \<open>Fields of a list\<close>

lemma getlines_field:
  assumes "d \<notin> set w" and "w \<noteq> [] \<or> rest \<noteq> []"
  shows "getlines d (w @ rest) =
    (if rest = [] then [w] else if hd rest = d then w # getlines d (tl rest) else getlines d (w @ rest))"
proof (cases rest)
  case Nil
  have t: "takeWhile (\<lambda>c. c \<noteq> d) w = w" "dropWhile (\<lambda>c. c \<noteq> d) w = []"
    using assms(1) by auto
  show ?thesis
    using assms Nil by (subst getlines.simps) (simp add: t getlines.simps [of d "[]"])
next
  case (Cons x xs)
  show ?thesis
  proof (cases "x = d")
    case True
    have "takeWhile (\<lambda>c. c \<noteq> d) (w @ d # xs) = w" "dropWhile (\<lambda>c. c \<noteq> d) (w @ d # xs) = d # xs"
      using assms(1) by (auto simp: takeWhile_append dropWhile_append)
    then show ?thesis by (subst (1) getlines.simps) (simp add: Cons True)
  next
    case False
    then show ?thesis by (simp add: Cons)
  qed
qed

text \<open>The elements joined by a delimiter.\<close>

fun join_with :: "char \<Rightarrow> string list \<Rightarrow> string" where
  "join_with d [] = []"
| "join_with d [w] = w"
| "join_with d (w # v # ws) = w @ d # join_with d (v # ws)"

lemma getlines_join:
  "list_all (\<lambda>w. d \<notin> set w) ws \<Longrightarrow> ws = [] \<or> last ws \<noteq> [] \<Longrightarrow> getlines d (join_with d ws) = ws"
proof (induction d ws rule: join_with.induct)
  case (1 d)
  then show ?case by (simp add: getlines.simps)
next
  case (2 d w)
  then show ?case using getlines_field [of d w "[]"] by simp
next
  case (3 d w v ws)
  then show ?case using getlines_field [of d w "d # join_with d (v # ws)"] by simp
qed

lemma getlines_trailing:
  "list_all (\<lambda>w. d \<notin> set w) ws \<Longrightarrow> ws \<noteq> [] \<Longrightarrow> getlines d (join_with d ws @ [d]) = ws"
proof (induction d ws rule: join_with.induct)
  case (1 d)
  then show ?case by simp
next
  case (2 d w)
  then show ?case using getlines_field [of d w "[d]"] by (simp add: getlines.simps [of d "[]"])
next
  case (3 d w v ws)
  then show ?case using getlines_field [of d w "d # join_with d (v # ws) @ [d]"] by simp
qed

section \<open>Results of the parser\<close>

lemma bindp_Inr_iff:
  "bindp m f w = (Inr b, w') \<longleftrightarrow> (\<exists>a w1. m w = (Inr a, w1) \<and> f a w1 = (Inr b, w'))"
  by (auto simp: bindp_def split: prod.splits sum.splits)

lemma parse_option_config:
  "parse_option argv0 x a w = (Inr a', w') \<Longrightarrow> fst x \<noteq> CHR ''c'' \<Longrightarrow> dpdk_config a' = dpdk_config a"
  by (cases x) (auto simp: parse_option_def bindp_Inr_iff ret_run log_then log_fatal_run split: if_splits)

lemma parse_options_config:
  "parse_options argv0 opts a w = (Inr a', w') \<Longrightarrow> \<forall>x\<in>set opts. fst x \<noteq> CHR ''c'' \<Longrightarrow>
     dpdk_config a' = dpdk_config a"
proof (induction opts arbitrary: a w)
  case Nil
  then show ?case by (simp add: ret_run)
next
  case (Cons x opts)
  from Cons.prems obtain b w1 where b: "parse_option argv0 x a w = (Inr b, w1)"
    "parse_options argv0 opts b w1 = (Inr a', w')"
    by (auto simp: bindp_Inr_iff)
  show ?case
    using Cons.IH [OF b(2)] parse_option_config [OF b(1)] Cons.prems(2) by simp
qed


lemma log_returns: "\<exists>w'. print_stat s v w = (Inr (), w')" "\<exists>w'. log_msg l s w = (Inr (), w')"
  by (simp_all add: print_stat_run log_msg_run)






section \<open>Results of the program\<close>








section \<open>Properties\<close>

text \<open>C36: Every rule given with \<open>-f\<close> arrives in the filter list, and nothing else: whatever elements
  without a comma are joined by commas, in one option or in several, come out in order, behind
  what was in the list before; empty elements are kept and one trailing comma changes nothing.\<close>

theorem filter_list_roundtrip:
  assumes "list_all (\<lambda>(ws, comma). list_all (\<lambda>w. CHR '','' \<notin> set w) ws \<and> ws \<noteq> [] \<and> (comma \<or> last ws \<noteq> [])) fs"
  shows "parse_options argv0 (map (\<lambda>(ws, comma). (CHR ''f'', join_with (CHR '','') ws @ (if comma then '','' else []))) fs) a w =
    (Inr (a\<lparr>filter_list := filter_list a @ concat (map fst fs)\<rparr>), w)"
  using assms
proof (induction fs arbitrary: a)
  case Nil
  then show ?case by (simp add: ret_run)
next
  case (Cons f fs)
  obtain ws comma where f: "f = (ws, comma)" by (cases f)
  have "getlines (CHR '','') (join_with (CHR '','') ws @ (if comma then '','' else [])) = ws"
    using Cons.prems getlines_trailing [of "CHR '',''" ws] getlines_join [of "CHR '',''" ws] by (auto simp: f)
  with Cons show ?case by (simp add: f parse_option_def prog_then)
qed

theorem filter_list_roundtrip_witness:
  "parse_options ''server'' [(CHR ''f'', ''10.0.0.1:1,,10.0.0.2:2''), (CHR ''f'', ''10.0.0.3:3,'')] default_arguments
      \<lparr>device = (), log_lines = []\<rparr> =
    (Inr (default_arguments\<lparr>filter_list := [''10.0.0.1:1'', [], ''10.0.0.2:2'', ''10.0.0.3:3'']\<rparr>),
     \<lparr>device = (), log_lines = []\<rparr>)"
  using filter_list_roundtrip [of "[([''10.0.0.1:1'', [], ''10.0.0.2:2''], False), ([''10.0.0.3:3''], True)]"
      "''server''" default_arguments "\<lparr>device = (), log_lines = []\<rparr>"]
  by (simp add: default_arguments_def)

text \<open>Without the option \<open>-c\<close> the program never gets past its command line, whatever the other
  options are.\<close>

lemma parse_args_needs_config:
  assumes "\<forall>x\<in>set opts. fst x \<noteq> CHR ''c''"
  shows "\<exists>e w'. parse_args argv0 opts default_arguments w = (Inl e, w')"
proof (cases "parse_options argv0 opts default_arguments w")
  case (Pair r w')
  show ?thesis
  proof (cases r)
    case (Inl e)
    with Pair show ?thesis by (simp add: parse_args_def bindp_run(1))
  next
    case (Inr a)
    with Pair parse_options_config [of argv0 opts default_arguments w a w'] assms
    have "dpdk_config a = None" by (simp add: default_arguments_def)
    with Pair Inr show ?thesis by (simp add: parse_args_def bindp_run(2) log_fatal_run)
  qed
qed

lemma parse_args_needs_config_example:
  "\<exists>e w'. parse_args ''server'' [(CHR ''t'', ''2''), (CHR ''d'', ''x'')] default_arguments
     \<lparr>device = (), log_lines = []\<rparr> = (Inl e, w')"
  by (rule parse_args_needs_config) simp

text \<open>The number of threads is taken modulo \<open>2 ^ 16\<close>: \<open>-t 65536\<close> asks for no thread at
  all.\<close>

lemma threads_argument_wraps:
  fixes w :: "'d world"
  assumes "n < 2 ^ 31"
  shows "parse_args argv0 [(CHR ''c'', config), (CHR ''t'', show_nat n)] default_arguments w =
    (Inr (default_arguments\<lparr>dpdk_config := Some config, num_threads := word_of_nat (n mod 2 ^ 16)\<rparr>), w)"
proof -
  have "stoi (show_nat n) = Inr (int n)" using stoi_show_nat [OF assms, of "[]"] by simp
  moreover have "(word_of_int (int n) :: u16) = word_of_nat (n mod 2 ^ 16)"
    by (simp add: word_unat_eq_iff unsigned_of_nat take_bit_eq_mod)
  ultimately have "parse_args argv0 [(CHR ''c'', config), (CHR ''t'', show_nat n)] default_arguments =
      (ret (default_arguments\<lparr>dpdk_config := Some config, num_threads := word_of_nat (n mod 2 ^ 16)\<rparr>)
        :: ('d world, arguments) prog)"
    by (simp add: parse_args_def parse_option_def stoi_prog_def prog_then)
  then show ?thesis by (simp add: ret_run)
qed

lemma threads_argument_wraps_example:
  "\<exists>a. parse_args ''server'' [(CHR ''c'', ''-l 0''), (CHR ''t'', show_nat 65536)] default_arguments
     \<lparr>device = (), log_lines = []\<rparr> = (Inr a, \<lparr>device = (), log_lines = []\<rparr>) \<and> num_threads a = 0"
  using threads_argument_wraps [of 65536 "''server''" "''-l 0''" "\<lparr>device = (), log_lines = []\<rparr>"] by simp




end
