(* ===== verification/Timeout.thy ===== *)
theory Timeout
  imports Main
begin

text \<open>
  The class \<open>Timeout\<close> and the signal handler of the server (\<open>main.cc\<close>) as a step relation: the
  main thread in \<open>wait_for\<close>, any number of signal handlers in \<open>force_stop\<close>, the mutex, the
  condition variable and a clock in seconds. The system may deliver a signal at any moment on
  any thread; a handler interrupts the thread it runs on, also when that thread is the main
  thread or is itself in a handler. \<open>d\<close> is the duration. Taking the mutex, each access to
  \<open>terminate\<close>, the notification and the release of the mutex are steps of their own; the wait
  of the condition variable releases the mutex and falls asleep in one step, which is what the
  language guarantees of it.
\<close>

section \<open>States\<close>

datatype waiter =
    Arriving   \<comment> \<open>before the lock\<close>
  | Checking   \<comment> \<open>holding the mutex, about to evaluate the predicate\<close>
  | Releasing  \<comment> \<open>predicate false, still holding the mutex\<close>
  | Asleep     \<comment> \<open>in the wait, the mutex released\<close>
  | Waking     \<comment> \<open>woken, about to take the mutex again\<close>
  | Relocked   \<comment> \<open>woken, holding the mutex\<close>
  | Leaving    \<comment> \<open>about to release the mutex and return\<close>
  | Returned

datatype handler_pc =
    NoHandler
  | HLock      \<comment> \<open>in front of the lock of \<open>force_stop\<close>\<close>
  | HSet       \<comment> \<open>holding the mutex, in front of \<open>terminate = true\<close>\<close>
  | HNotify    \<comment> \<open>in front of \<open>notify_all\<close>\<close>
  | HUnlock    \<comment> \<open>about to release the mutex\<close>
  | HDone

datatype owner = MainThread | Handler nat

text \<open>Handlers are numbered in the order of their signals; \<open>on_thread\<close> gives the thread a handler
  runs on, 0 for the main thread. \<open>entered\<close> is the time at which \<open>cv.wait_for\<close> is called.\<close>

record timeout =
  waiter :: waiter
  mutex :: "owner option"
  terminate :: bool
  clock :: nat
  entered :: nat
  signals :: nat
  on_thread :: "nat \<Rightarrow> nat"
  hpc :: "nat \<Rightarrow> handler_pc"

definition timeout_start :: timeout where
  "timeout_start = \<lparr>waiter = Arriving, mutex = None, terminate = False, clock = 0, entered = 0,
     signals = 0, on_thread = (\<lambda>_. 0), hpc = (\<lambda>_. NoHandler)\<rparr>"

text \<open>A handler runs unless a later one has interrupted its thread, the main thread unless a
  handler has.\<close>

definition main_runs :: "timeout \<Rightarrow> bool" where
  "main_runs s \<longleftrightarrow> (\<forall>j < signals s. on_thread s j = 0 \<longrightarrow> hpc s j = HDone)"

definition handler_runs :: "timeout \<Rightarrow> nat \<Rightarrow> bool" where
  "handler_runs s i \<longleftrightarrow> (\<forall>j < signals s. i < j \<and> on_thread s j = on_thread s i \<longrightarrow> hpc s j = HDone)"

inductive wstep :: "nat \<Rightarrow> timeout \<Rightarrow> timeout \<Rightarrow> bool" for d where
  tick: "wstep d s (s\<lparr>clock := clock s + 1\<rparr>)"
| lock: "waiter s = Arriving \<Longrightarrow> main_runs s \<Longrightarrow> mutex s = None \<Longrightarrow>
    wstep d s (s\<lparr>waiter := Checking, mutex := Some MainThread, entered := clock s\<rparr>)"
| check: "waiter s = Checking \<Longrightarrow> main_runs s \<Longrightarrow>
    wstep d s (s\<lparr>waiter := if terminate s then Leaving else Releasing\<rparr>)"
| sleep: "waiter s = Releasing \<Longrightarrow> main_runs s \<Longrightarrow> wstep d s (s\<lparr>waiter := Asleep, mutex := None\<rparr>)"
| timed_out: "waiter s = Asleep \<Longrightarrow> entered s + d \<le> clock s \<Longrightarrow> wstep d s (s\<lparr>waiter := Waking\<rparr>)"
| spurious: "waiter s = Asleep \<Longrightarrow> wstep d s (s\<lparr>waiter := Waking\<rparr>)"
| relock: "waiter s = Waking \<Longrightarrow> main_runs s \<Longrightarrow> mutex s = None \<Longrightarrow>
    wstep d s (s\<lparr>waiter := Relocked, mutex := Some MainThread\<rparr>)"
| again: "waiter s = Relocked \<Longrightarrow> main_runs s \<Longrightarrow> wstep d s (s\<lparr>waiter := Checking\<rparr>)"
| expired: "waiter s = Relocked \<Longrightarrow> main_runs s \<Longrightarrow> entered s + d \<le> clock s \<Longrightarrow>
    wstep d s (s\<lparr>waiter := Leaving\<rparr>)"
| return: "waiter s = Leaving \<Longrightarrow> main_runs s \<Longrightarrow> wstep d s (s\<lparr>waiter := Returned, mutex := None\<rparr>)"
| signal: "wstep d s (s\<lparr>signals := Suc (signals s), on_thread := (on_thread s)(signals s := t),
    hpc := (hpc s)(signals s := HLock)\<rparr>)"
| h_lock: "hpc s i = HLock \<Longrightarrow> handler_runs s i \<Longrightarrow> mutex s = None \<Longrightarrow>
    wstep d s (s\<lparr>mutex := Some (Handler i), hpc := (hpc s)(i := HSet)\<rparr>)"
| h_set: "hpc s i = HSet \<Longrightarrow> handler_runs s i \<Longrightarrow>
    wstep d s (s\<lparr>terminate := True, hpc := (hpc s)(i := HNotify)\<rparr>)"
| h_notify: "hpc s i = HNotify \<Longrightarrow> handler_runs s i \<Longrightarrow>
    wstep d s (s\<lparr>waiter := if waiter s = Asleep then Waking else waiter s, hpc := (hpc s)(i := HUnlock)\<rparr>)"
| h_unlock: "hpc s i = HUnlock \<Longrightarrow> handler_runs s i \<Longrightarrow>
    wstep d s (s\<lparr>mutex := None, hpc := (hpc s)(i := HDone)\<rparr>)"

inductive_cases wstepE: "wstep d s s'"

abbreviation wsteps :: "nat \<Rightarrow> timeout \<Rightarrow> timeout \<Rightarrow> bool" where
  "wsteps d \<equiv> (wstep d)\<^sup>*\<^sup>*"

section \<open>Invariants\<close>

definition holding :: "waiter \<Rightarrow> bool" where
  "holding w \<longleftrightarrow> w \<in> {Checking, Releasing, Relocked, Leaving}"

definition h_holding :: "handler_pc \<Rightarrow> bool" where
  "h_holding p \<longleftrightarrow> p \<in> {HSet, HNotify, HUnlock}"

text \<open>The mutex belongs to whoever is in its critical section, and to one of them only.\<close>

definition mutex_inv :: "timeout \<Rightarrow> bool" where
  "mutex_inv s \<longleftrightarrow>
     (holding (waiter s) \<longleftrightarrow> mutex s = Some MainThread) \<and>
     (\<forall>i. h_holding (hpc s i) \<longleftrightarrow> mutex s = Some (Handler i)) \<and>
     (\<forall>i. hpc s i \<noteq> NoHandler \<longrightarrow> i < signals s)"

lemma mutex_invD:
  "mutex_inv s \<Longrightarrow> h_holding (hpc s i) \<Longrightarrow> mutex s = Some (Handler i)"
  "mutex_inv s \<Longrightarrow> holding (waiter s) \<Longrightarrow> mutex s = Some MainThread"
  by (simp_all add: mutex_inv_def)

text \<open>A step of handler \<open>i\<close> that keeps the mutex in accord with its new place.\<close>

lemma mutex_inv_handler:
  assumes "mutex_inv s" and "i < signals s" and "\<not> h_holding (hpc s i) \<Longrightarrow> mutex s = None"
    and "m = (if h_holding p then Some (Handler i) else None)" and "p \<noteq> NoHandler"
    and "waiter s' = waiter s \<or> \<not> holding (waiter s) \<and> \<not> holding (waiter s')" and "mutex s' = m"
    and "hpc s' = (hpc s)(i := p)" and "signals s' = signals s"
  shows "mutex_inv s'"
proof -
  have o: "h_holding (hpc s j) \<longleftrightarrow> mutex s = Some (Handler j)" for j
    using assms(1) by (simp add: mutex_inv_def)
  then have m: "mutex s = None \<or> mutex s = Some (Handler i)" using assms(3) by blast
  then have w: "\<not> holding (waiter s)" using assms(1) by (auto simp: mutex_inv_def)
  have "h_holding (hpc s' j) \<longleftrightarrow> mutex s' = Some (Handler j)" for j
    using o [of j] m assms(4,7,8) by (cases "j = i") auto
  moreover have "hpc s' j \<noteq> NoHandler \<longrightarrow> j < signals s'" for j
    using assms(1,2,8,9) by (auto simp: mutex_inv_def)
  moreover have "\<not> holding (waiter s')" "mutex s' \<noteq> Some MainThread" using w assms(4,6,7) by auto
  ultimately show ?thesis by (simp add: mutex_inv_def)
qed

lemma mutex_inv_step:
  assumes "wstep d s s'" and "mutex_inv s"
  shows "mutex_inv s'"
proof -
  have i: "i < signals s" if "hpc s i \<noteq> NoHandler" for i using assms(2) that by (simp add: mutex_inv_def)
  have w: "waiter s \<noteq> Asleep \<or> \<not> holding (waiter s)" by (simp add: holding_def)
  show ?thesis
    using assms(1)
  proof (rule wstepE)
    fix t
    assume s': "s' = s\<lparr>signals := Suc (signals s), on_thread := (on_thread s)(signals s := t),
      hpc := (hpc s)(signals s := HLock)\<rparr>"
    have "\<not> h_holding (hpc s (signals s))" using i [of "signals s"] by (auto simp: h_holding_def)
    with assms(2) show ?thesis
      by (auto simp: s' mutex_inv_def h_holding_def [of HLock] less_Suc_eq)
  next
    fix i
    assume "s' = s\<lparr>mutex := Some (Handler i), hpc := (hpc s)(i := HSet)\<rparr>" "hpc s i = HLock" "mutex s = None"
    then show ?thesis using i [of i] by (intro mutex_inv_handler [OF assms(2)]) (simp_all add: h_holding_def)
  next
    fix i
    assume "s' = s\<lparr>terminate := True, hpc := (hpc s)(i := HNotify)\<rparr>" "hpc s i = HSet"
    moreover from this have "mutex s = Some (Handler i)"
      using mutex_invD(1) [OF assms(2), of i] by (simp add: h_holding_def)
    ultimately show ?thesis using i [of i] by (intro mutex_inv_handler [OF assms(2)]) (simp_all add: h_holding_def)
  next
    fix i
    assume "s' = s\<lparr>waiter := if waiter s = Asleep then Waking else waiter s, hpc := (hpc s)(i := HUnlock)\<rparr>"
      "hpc s i = HNotify"
    moreover from this have "mutex s = Some (Handler i)"
      using mutex_invD(1) [OF assms(2), of i] by (simp add: h_holding_def)
    ultimately show ?thesis
      using i [of i] by (intro mutex_inv_handler [OF assms(2)]) (simp_all add: h_holding_def holding_def)
  next
    fix i
    assume "s' = s\<lparr>mutex := None, hpc := (hpc s)(i := HDone)\<rparr>" "hpc s i = HUnlock"
    then show ?thesis using i [of i] by (intro mutex_inv_handler [OF assms(2)]) (simp_all add: h_holding_def)
  qed (use assms(2) in \<open>auto simp: mutex_inv_def holding_def split: if_splits\<close>)
qed

text \<open>What the waiter may rely on once \<open>terminate\<close> is set, and why it returns.\<close>

definition stop_inv :: "nat \<Rightarrow> timeout \<Rightarrow> bool" where
  "stop_inv d s \<longleftrightarrow>
     (terminate s \<longrightarrow> waiter s \<noteq> Releasing) \<and>
     (terminate s \<and> waiter s = Asleep \<longrightarrow> (\<exists>i. hpc s i = HNotify)) \<and>
     (waiter s \<in> {Leaving, Returned} \<longrightarrow> terminate s \<or> entered s + d \<le> clock s)"

lemma stop_inv_step:
  assumes "wstep d s s'" and "mutex_inv s" and "stop_inv d s"
  shows "stop_inv d s'"
  using assms(1)
proof (rule wstepE)
  fix i
  assume "s' = s\<lparr>terminate := True, hpc := (hpc s)(i := HNotify)\<rparr>" "hpc s i = HSet"
  moreover from this have "\<not> holding (waiter s)"
    using assms(2) unfolding mutex_inv_def h_holding_def by (metis insertI1 option.inject owner.distinct(1))
  ultimately show ?thesis using assms(3) by (auto simp: stop_inv_def holding_def)
next
  fix t
  assume s': "s' = s\<lparr>signals := Suc (signals s), on_thread := (on_thread s)(signals s := t),
    hpc := (hpc s)(signals s := HLock)\<rparr>"
  have "hpc s (signals s) = NoHandler" using assms(2) unfolding mutex_inv_def by (meson less_irrefl)
  then have "hpc s i = HNotify \<Longrightarrow> hpc s' i = HNotify" for i by (auto simp: s')
  with s' assms(3) show ?thesis unfolding stop_inv_def by (auto simp del: fun_upd_apply)
next
  fix i
  assume a: "s' = s\<lparr>waiter := if waiter s = Asleep then Waking else waiter s, hpc := (hpc s)(i := HUnlock)\<rparr>"
  then show ?thesis using assms(3) by (auto simp: stop_inv_def)
next
  fix i
  assume s': "s' = s\<lparr>mutex := Some (Handler i), hpc := (hpc s)(i := HSet)\<rparr>" "hpc s i = HLock"
  then have "hpc s j = HNotify \<Longrightarrow> hpc s' j = HNotify" for j by auto
  with s' assms(3) show ?thesis unfolding stop_inv_def by (auto simp del: fun_upd_apply)
next
  fix i
  assume s': "s' = s\<lparr>mutex := None, hpc := (hpc s)(i := HDone)\<rparr>" "hpc s i = HUnlock"
  then have "hpc s j = HNotify \<Longrightarrow> hpc s' j = HNotify" for j by auto
  with s' assms(3) show ?thesis unfolding stop_inv_def by (auto simp del: fun_upd_apply)
qed (use assms(3) in \<open>auto simp: stop_inv_def split: if_splits\<close>)

lemma timeout_reachable:
  assumes "wsteps d timeout_start s"
  shows "mutex_inv s" and "stop_inv d s"
proof -
  have "mutex_inv s \<and> stop_inv d s"
    using assms
  proof (induction rule: rtranclp_induct)
    case base
    then show ?case
      by (simp add: mutex_inv_def stop_inv_def timeout_start_def holding_def h_holding_def)
  next
    case (step s s')
    then show ?case using mutex_inv_step stop_inv_step by blast
  qed
  then show "mutex_inv s" "stop_inv d s" by simp_all
qed

section \<open>Returning after a stop\<close>

lemma leaving_returns: "waiter s = Leaving \<Longrightarrow> main_runs s \<Longrightarrow> \<exists>s'. wsteps d s s' \<and> waiter s' = Returned"
  using wstep.return [of s d] by (intro exI [of _ "s\<lparr>waiter := Returned, mutex := None\<rparr>"]) simp

lemma checking_returns:
  assumes "waiter s = Checking" and "main_runs s" and "terminate s"
  shows "\<exists>s'. wsteps d s s' \<and> waiter s' = Returned"
proof -
  let ?t = "s\<lparr>waiter := Leaving\<rparr>"
  have "wstep d s ?t" using wstep.check [OF assms(1,2), of d] assms(3) by simp
  moreover obtain s' where "wsteps d ?t s'" "waiter s' = Returned"
    using leaving_returns [of ?t d] assms(2) by (auto simp: main_runs_def)
  ultimately show ?thesis by (meson converse_rtranclp_into_rtranclp)
qed

lemma relocked_returns:
  assumes "waiter s = Relocked" and "main_runs s" and "terminate s"
  shows "\<exists>s'. wsteps d s s' \<and> waiter s' = Returned"
  using wstep.again [OF assms(1,2), of d] checking_returns [of "s\<lparr>waiter := Checking\<rparr>" d] assms(2,3)
  by (auto simp: main_runs_def intro: converse_rtranclp_into_rtranclp)

text \<open>When every handler is done, a stopped wait returns.\<close>

lemma stopped_returns:
  assumes "mutex_inv s" and "stop_inv d s" and "terminate s" and "\<forall>i < signals s. hpc s i = HDone"
  shows "\<exists>s'. wsteps d s s' \<and> waiter s' = Returned"
proof -
  have m: "main_runs s" using assms(4) by (simp add: main_runs_def)
  have h: "hpc s i = HDone \<or> hpc s i = NoHandler" for i
    using assms(1,4) by (cases "i < signals s") (auto simp: mutex_inv_def)
  have "\<not> h_holding (hpc s i)" for i using h [of i] by (auto simp: h_holding_def)
  then have free: "mutex s = None" if "\<not> holding (waiter s)"
    using assms(1) that by (auto simp: mutex_inv_def) (metis not_None_eq owner.exhaust)
  show ?thesis
  proof (cases "waiter s")
    case Arriving
    let ?t = "s\<lparr>waiter := Checking, mutex := Some MainThread, entered := clock s\<rparr>"
    have "wstep d s ?t" using Arriving m free by (intro wstep.lock) (simp_all add: holding_def)
    moreover have "\<exists>s'. wsteps d ?t s' \<and> waiter s' = Returned"
      using m assms(3) by (intro checking_returns) (simp_all add: main_runs_def)
    ultimately show ?thesis by (meson converse_rtranclp_into_rtranclp)
  next
    case Waking
    let ?t = "s\<lparr>waiter := Relocked, mutex := Some MainThread\<rparr>"
    have "wstep d s ?t" using Waking m free by (intro wstep.relock) (simp_all add: holding_def)
    moreover have "\<exists>s'. wsteps d ?t s' \<and> waiter s' = Returned"
      using m assms(3) by (intro relocked_returns) (simp_all add: main_runs_def)
    ultimately show ?thesis by (meson converse_rtranclp_into_rtranclp)
  next
    case Asleep
    then obtain i where "hpc s i = HNotify" using assms(2,3) by (auto simp: stop_inv_def)
    with h [of i] show ?thesis by simp
  next
    case Releasing
    then show ?thesis using assms(2,3) by (simp add: stop_inv_def)
  next
    case Checking
    then show ?thesis using m assms(3) by (rule checking_returns)
  next
    case Relocked
    then show ?thesis using m assms(3) by (rule relocked_returns)
  next
    case Leaving
    then show ?thesis using m by (rule leaving_returns)
  next
    case Returned
    then show ?thesis by blast
  qed
qed

section \<open>The deadlock\<close>

text \<open>The main thread holds the mutex, and a handler on it waits for the mutex.\<close>

definition stuck :: "nat \<Rightarrow> timeout \<Rightarrow> bool" where
  "stuck i s \<longleftrightarrow> holding (waiter s) \<and> i < signals s \<and> on_thread s i = 0 \<and> hpc s i = HLock"

lemma stuck_step:
  assumes "wstep d s s'" and "mutex_inv s" and "stuck i s"
  shows "stuck i s' \<and> waiter s' = waiter s \<and> terminate s' = terminate s"
proof -
  have "\<not> main_runs s" using assms(3) by (auto simp: stuck_def main_runs_def)
  moreover have "mutex s = Some MainThread" "\<And>j. \<not> h_holding (hpc s j)"
    using assms(2,3) by (simp_all add: mutex_inv_def stuck_def)
  ultimately show ?thesis
    using assms(1,3) by (elim wstepE) (auto simp: stuck_def holding_def h_holding_def)
qed

section \<open>Properties\<close>

text \<open>C39: A stop is never lost and the wait never returns early, for every interleaving of the
  waiter with any number of signal handlers: once \<open>terminate\<close> is set the waiter sleeps only while
  a handler is about to notify it; when the handlers are done the wait can return; and it returns
  only if it was stopped or its time is over.\<close>

theorem stop_not_lost:
  assumes "wsteps d timeout_start s"
  shows "(terminate s \<and> waiter s \<in> {Releasing, Asleep} \<longrightarrow> (\<exists>i. hpc s i = HNotify)) \<and>
    (terminate s \<and> (\<forall>i < signals s. hpc s i = HDone) \<longrightarrow> (\<exists>s'. wsteps d s s' \<and> waiter s' = Returned)) \<and>
    (waiter s = Returned \<longrightarrow> terminate s \<or> entered s + d \<le> clock s)"
  using timeout_reachable [OF assms] stopped_returns [of s d] by (auto simp: stop_inv_def)

text \<open>A run into the states the witnesses use: the waiter takes the mutex, and a signal arrives.\<close>

lemma locked_run: "wsteps d timeout_start (timeout_start\<lparr>waiter := Checking, mutex := Some MainThread\<rparr>)"
  using wstep.lock [of timeout_start d] by (simp add: timeout_start_def main_runs_def r_into_rtranclp)

lemma interrupted_run:
  "wsteps d timeout_start (timeout_start\<lparr>waiter := Checking, mutex := Some MainThread, signals := 1,
     on_thread := (\<lambda>_. 0)(0 := t), hpc := (\<lambda>_. NoHandler)(0 := HLock)\<rparr>)"
proof (rule rtranclp.rtrancl_into_rtrancl [OF locked_run])
  show "wstep d (timeout_start\<lparr>waiter := Checking, mutex := Some MainThread\<rparr>)
     (timeout_start\<lparr>waiter := Checking, mutex := Some MainThread, signals := 1,
       on_thread := (\<lambda>_. 0)(0 := t), hpc := (\<lambda>_. NoHandler)(0 := HLock)\<rparr>)"
    using wstep.signal [of d "timeout_start\<lparr>waiter := Checking, mutex := Some MainThread\<rparr>" t]
    by (simp add: timeout_start_def)
qed

text \<open>The same signal on another thread while the waiter sleeps: up to the notification.\<close>

lemma notifying_run:
  "wsteps d timeout_start (timeout_start\<lparr>waiter := Asleep, mutex := Some (Handler 0), terminate := True,
     signals := 1, on_thread := (\<lambda>_. 0)(0 := 1), hpc := (\<lambda>_. NoHandler)(0 := HNotify)\<rparr>)"
proof -
  define st where "st w m t p = timeout_start\<lparr>waiter := w, mutex := m, terminate := t, signals := 1,
     on_thread := (\<lambda>_. 0)(0 := 1), hpc := (\<lambda>_. NoHandler)(0 := p)\<rparr>" for w m t p
  have r: "main_runs (st w m t p)" "handler_runs (st w m t p) 0" for w m t p
    by (simp_all add: st_def main_runs_def handler_runs_def)
  have u: "(st w m t p)\<lparr>waiter := w'\<rparr> = st w' m t p" "(st w m t p)\<lparr>mutex := m'\<rparr> = st w m' t p"
    "(st w m t p)\<lparr>terminate := t'\<rparr> = st w m t' p"
    "(st w m t p)\<lparr>hpc := (hpc (st w m t p))(0 := p')\<rparr> = st w m t p'"
    "(st w m t p)\<lparr>hpc := (hpc (st w m0 t0 p))(0 := p')\<rparr> = st w m t p'" for w m t p w' m' t' p' m0 t0
    by (simp_all add: st_def)
  have f: "waiter (st w m t p) = w" "mutex (st w m t p) = m" "terminate (st w m t p) = t"
    "hpc (st w m t p) 0 = p" for w m t p
    by (simp_all add: st_def)
  have "wsteps d timeout_start (st Checking (Some MainThread) False HLock)"
    using interrupted_run [of d 1] by (simp add: st_def timeout_start_def)
  also have "wstep d (st Checking (Some MainThread) False HLock) (st Releasing (Some MainThread) False HLock)"
    using wstep.check [OF f(1) r(1), of d "Some MainThread" False HLock] by (simp only: u f if_False)
  also (rtranclp.rtrancl_into_rtrancl) have "wstep d \<dots> (st Asleep None False HLock)"
    using wstep.sleep [OF f(1) r(1), of d] by (simp only: u)
  also (rtranclp.rtrancl_into_rtrancl) have "wstep d \<dots> (st Asleep (Some (Handler 0)) False HSet)"
    using wstep.h_lock [OF f(4) r(2) f(2), of d Asleep False] by (simp only: u)
  also (rtranclp.rtrancl_into_rtrancl) have "wstep d \<dots> (st Asleep (Some (Handler 0)) True HNotify)"
    using wstep.h_set [OF f(4) r(2), of d Asleep "Some (Handler 0)" False] by (simp only: u)
  finally (rtranclp.rtrancl_into_rtrancl) show ?thesis by (simp add: st_def)
qed

theorem stop_not_lost_witness:
  "\<exists>s. wsteps 10 timeout_start s \<and> terminate s \<and> waiter s = Asleep \<and> (\<exists>i. hpc s i = HNotify)"
proof (intro exI conjI)
  show "wsteps 10 timeout_start (timeout_start\<lparr>waiter := Asleep, mutex := Some (Handler 0), terminate := True,
     signals := 1, on_thread := (\<lambda>_. 0)(0 := 1), hpc := (\<lambda>_. NoHandler)(0 := HNotify)\<rparr>)"
    by (rule notifying_run)
qed (use stop_not_lost [OF notifying_run, of 10] in simp_all)

text \<open>C40: The signal handler takes the mutex of \<open>wait_for\<close>. A signal delivered on the main thread
  while it holds that mutex blocks both for ever: the wait does not return and \<open>terminate\<close> is not
  set, neither by this signal nor by a later one nor when the time is over.\<close>

theorem signal_deadlock:
  assumes "wsteps d timeout_start s" and "stuck i s" and "wsteps d s s'"
  shows "waiter s' = waiter s \<and> waiter s' \<noteq> Returned \<and> terminate s' = terminate s"
proof -
  have "mutex_inv s' \<and> stuck i s' \<and> waiter s' = waiter s \<and> terminate s' = terminate s"
    using assms(3)
  proof (induction rule: rtranclp_induct)
    case base
    then show ?case using timeout_reachable(1) [OF assms(1)] assms(2) by simp
  next
    case (step t t')
    then show ?case using mutex_inv_step stuck_step by metis
  qed
  then show ?thesis by (auto simp: stuck_def holding_def)
qed

theorem signal_deadlock_witness:
  "\<exists>s. wsteps 10 timeout_start s \<and> waiter s = Checking \<and> (\<forall>s'. wsteps 10 s s' \<longrightarrow> waiter s' \<noteq> Returned)"
proof -
  let ?s = "timeout_start\<lparr>waiter := Checking, mutex := Some MainThread, signals := 1,
     on_thread := (\<lambda>_. 0)(0 := 0), hpc := (\<lambda>_. NoHandler)(0 := HLock)\<rparr>"
  have "stuck 0 ?s" by (simp add: stuck_def holding_def)
  with signal_deadlock [OF interrupted_run [of 10 0]] interrupted_run [of 10 0] show ?thesis
    by (intro exI [of _ ?s]) auto
qed

end
