(* ===== verification/Spec2Isabelle.thy ===== *)
theory Spec2Isabelle
  imports Clocked_Core Address_Text Dpdk_Rx Dpdk_Threads Main_Program Timeout
begin

text \<open>
  A packet filter in two halves. The hardware half (\<open>hardware/src/hls\<close>) is a circuit in the
  data path of an FPGA network card: it lets an IPv4/UDP packet through when the slot of its
  destination address and port in a hash table holds the action forward, and drops every other
  packet. The software half (\<open>software/src\<close>) runs on the host: it programs the table through
  the card's registers, receives the packets that come through with DPDK, prints each of them,
  and prints the statistics at the end. The two halves meet in the registers only: the software
  writes an address, a port and an action there, and the circuit copies what it finds into the
  table whenever its input stream is empty.

  The hardware, bottom up.

  \<^item> \<open>Ap_Uint\<close>: \<open>ap_uint<N>\<close> and its \<open>range\<close>, as \<open>N word\<close> and a read and a write of a bit range.
  \<^item> \<open>Toeplitz_Hash\<close> (\<open>hash.h\<close>, \<open>hash.cc\<close>): the record \<open>toeplitz_hash\<close> is the class, with its key and
    its table; \<open>compute_hash\<close>, \<open>ht_insert\<close> and \<open>ht_lookup\<close> are its members. The hash is the
    sliding-window Toeplitz hash; it is linear, so all 32 slots are used and each by the same
    number of destinations; the table is a map from slots to actions (locale \<open>slot_table\<close>).
  \<^item> \<open>Network_Headers\<close> (\<open>network.h\<close>, \<open>network.cc\<close>): the three headers and \<open>NetworkPacket\<close>, read from
    and written to a 512-bit stream word. Each header is a lossless codec of its own bit range
    (locale \<open>header_codec\<close>), codecs of adjacent ranges compose (locale \<open>codec_pair\<close>), and the
    fields are related to the bytes of an Ethernet frame.
  \<^item> \<open>Filter_Core\<close> (\<open>packet_filter.cc\<close>): \<open>core_ports\<close> is the interface of the circuit, \<open>core_statics\<close>
    the function-static variables of \<open>process_packet\<close>, and \<open>core_next\<close> one event: a stream word
    arrives, software writes a register, or the circuit runs once. Shown: what is reachable
    (\<open>core_inv\<close>), that words are neither made up nor reordered (\<open>io_inv\<close>), that with a fixed
    table the circuit refines a filter on whole packets, and that only IPv4/UDP packets leave it.

  The software, bottom up.

  \<^item> \<open>Sw_Effects\<close>: a computation on a state ends with a value or with a fault (an abort, an
    uncaught exception, an access out of bounds, a call that never returns).
  \<^item> \<open>Logging\<close> (\<open>logging.h\<close>, \<open>logging.cc\<close>, \<open>deps.h\<close>): levels, time stamp and the line buffer of
    \<open>Log::log\<close>, with the lengths for which it stays inside its buffer; \<open>snprintf\<close> returns an
    \<open>int\<close>, and -1 for a text whose length is none.
  \<^item> \<open>Mmio\<close> and \<open>Filter_Rules\<close> (\<open>packet_filter.h\<close>, \<open>packet_filter.cc\<close>): register access, the
    programming of a rule \<open>ip:port\<close>, the constructor that programs a list of them, and the
    statistics. \<open>filter_device\<close> is the contract of the device behind the registers.
  \<^item> \<open>Register_File\<close>: the registers of the circuit as that device. It interprets the contract, and
    is where a rule of the server meets a packet in the circuit. \<open>Clocked_Core\<close>: the same device
    with a circuit that runs on between the register writes, after a schedule.
  \<^item> \<open>Packet_Handler\<close> (\<open>main.cc\<close>): the callback that checks a received packet and prints it. It
    gives the exact outcome for every packet, reads out of bounds included. \<open>Address_Text\<close>: the
    addresses it prints, read back as the rules are read.
  \<^item> \<open>Dpdk_Init\<close>, \<open>Dpdk_Rx\<close> and \<open>Dpdk_Threads\<close> (\<open>dpdk.h\<close>, \<open>dpdk.cc\<close>): the initialisation as a program
    on the history of calls to DPDK, the receive loop as a program that records what happens to
    each buffer, and the waiting of the threads for each other as the step relation \<open>tstep\<close>. Shown
    of the first: which loops are launched, and that they are when DPDK does its part.
  \<^item> \<open>Main_Program\<close> and \<open>Timeout\<close> (\<open>main.cc\<close>): the command line, \<open>main\<close>, and the class \<open>Timeout\<close> with
    the signal handler, again as a step relation (\<open>wstep\<close>) of the waiter and any number of
    handlers, down to the single access. \<open>main\<close> ends with the destructor of the \<open>DPDK\<close> object;
    \<open>Dpdk_Threads\<close> says when that returns.

  This theory holds the properties that need both halves. \<open>Filter_Prelude\<close> holds the machine
  integers, byte orders and list lemmas they all share.

  Parameters. What the repository only calls is an argument of the model: the QDMA driver (a
  record of functions on the state of the device), DPDK (a function from the history of calls to
  the result of the next one), \<open>inet_addr\<close>, the clock, and the options that \<open>getopt\<close> returns. Where
  a property depends on their behaviour it says so as a hypothesis, and its witness gives a
  concrete function. The C++ standard library (\<open>std::stoi\<close>, \<open>std::getline\<close>, \<open>strtok\<close>,
  \<open>vsnprintf\<close>) and \<open>hls::stream\<close> are modelled from their documentation.

  Bounds. Integers have the width the source gives them. Lengths of strings are natural numbers;
  the properties of the logger and the handler name the lengths up to which they hold. Every
  function terminates and no fuel is used: the receive loop runs over the list of bursts it
  received until the stop flag was seen, and the waiting of threads is a relation, for which
  termination is a decreasing measure.

  Not modelled: the \<open>HLS\<close> pragmas and the timing of the circuit within one call (a call is atomic,
  and so is the write of one register), back pressure at the output stream, the mutex of the
  logger's setters, the memory order of the two stop flags, the contents of the packets DPDK
  delivers beyond one buffer per packet, and the parts that are not C++: the shell around the
  circuit, build files, scripts and patches.
\<close>

section \<open>Server and core together\<close>

text \<open>C1: A rule \<open>a.b.c.d:n\<close> given to the server reaches the wire: once the core has been idle
  for one call, a UDP packet whose destination bytes are \<open>a b c d\<close> and whose destination port, in
  network order, is \<open>n\<close> comes out whole when the rule says forward and not at all when it says
  drop.\<close>

theorem rule_reaches_wire:
  assumes "CHR '':'' \<notin> set ip_str" and "inet_addr ip_str = le_word [a, b, c, d]"
    and "inet_addr ip_str \<noteq> INADDR_NONE" and "0 < n" and "n < 2 ^ 16"
    and "ht_wf (hash_table st)" and "phit_idx st = 0" and "s_axis io = []"
    and "wf_packet p" and "data (hd p) = le_word bs" and "length bs = 64" and "wire_udp4 bs"
    and "[bs ! 30, bs ! 31, bs ! 32, bs ! 33] = [a, b, c, d]"
    and "be_word [bs ! 36, bs ! 37] = (of_nat n :: u16)"
  shows "let (r, w) = update_rule (core_qdma bar drv) inet_addr (filter_mmio bar)
      (ip_str @ CHR '':'' # show_nat n) act \<lparr>device = (io, st), log_lines = ls\<rparr> in
     r = Inr () \<and>
     m_axis (fst (core_run (Call # map Arrive p @ replicate (length p) Call) (device w))) =
       m_axis io @ (if act = RULE_ACTION_FORWARD then p else [])"
proof -
  have n0: "(word_of_int (int n) :: u16) \<noteq> 0"
    using assms(4,5) by (simp add: word_of_nat_eq_0_iff nat_dvd_not_less)
  have "stoi (show_nat n) = Inr (int n)"
    using stoi_show_nat [of n "[]"] assms(5) by simp
  note u = update_rule_accepted [OF filter_mmio_base assms(1) _ this n0, where inet_addr = inet_addr,
      OF assms(3)]
  have "htons (of_nat n) = le_word [bs ! 36, bs ! 37]"
    by (simp only: htons_def assms(14) [symmetric] bswap16_be_word)
  then have "(inet_addr ip_str, htons (of_nat n)) = wire_target bs"
    using assms(2,13) by (simp add: wire_target_def del: le_word.simps)
  then show ?thesis
    using rule_then_packet [OF assms(6-9,11,10,12), of "inet_addr ip_str" "htons (of_nat n)" act]
    by (simp add: u rule_writes_core)
qed

theorem rule_reaches_wire_witness:
  "let w = snd (update_rule (core_qdma 2 bare_driver) dotted_addr (filter_mmio 2)
       (''192.168.2.1'' @ CHR '':'' # show_nat 8500) RULE_ACTION_FORWARD \<lparr>device = core_init, log_lines = []\<rparr>)
   in m_axis (fst (core_run (Call # map Arrive example_packet @ replicate (length example_packet) Call)
     (device w))) = example_packet"
proof -
  have b: "be_word [example_frame ! 36, example_frame ! 37] = (of_nat 8500 :: u16)"
    using example_frame_facts(4) by (simp add: be_word_def)
  have a: "CHR '':'' \<notin> set ''192.168.2.1''" "dotted_addr ''192.168.2.1'' \<noteq> INADDR_NONE"
    "dotted_addr ''192.168.2.1'' = le_word [192, 168, 2, 1]"
    by (simp_all add: example_addr INADDR_NONE_def)
  have n: "(0 :: nat) < 8500" "(8500 :: nat) < 2 ^ 16" by simp_all
  note r = rule_reaches_wire [where ip_str = "''192.168.2.1''" and inet_addr = dotted_addr and n = 8500
      and io = "fst core_init" and st = "snd core_init" and bar = 2 and drv = bare_driver
      and act = RULE_ACTION_FORWARD and ls = "[]" and p = example_packet and bs = example_frame]
  show ?thesis
    using r [OF a(1,3,2) n core_init_facts(1-3) example_packet_facts example_frame_facts(1-3) b]
      core_init_facts(4)
    by (simp only: Let_def case_prod_unfold prod.collapse if_True append_Nil simp_thms)
qed

text \<open>C17: The three register writes of a rule are not atomic. If the core is idle between the
  first and the second, it installs the new address with the port and the action of the rule
  before, a rule nobody asked for; it stays in the table after the update, unless the new rule
  falls in its slot.\<close>

theorem mixed_rule_installed:
  assumes "ht_wf (hash_table st)" and "s_axis io = []"
    and "slot_of (ip, port) \<noteq> slot_of (ip, udp_port io)"
  shows "ht_lookup (hash_table (snd (core_run
      [SetIpv4Addr ip, Call, SetUdpPort port, SetAction act, Call] (io, st)))) ip (udp_port io) =
    ucast (action io)"
  using assms
    ht.look_ins [of "hash_table st" "(ip, udp_port io)" "ucast (action io)" "(ip, udp_port io)"]
    ht.look_ins [of "ht_insert (hash_table st) ip (udp_port io) (ucast (action io))" "(ip, port)"
      "ucast act" "(ip, udp_port io)"]
  by (simp add: packet_filter_def call_idle)

theorem mixed_rule_installed_witness:
  "let (io, st) = core_init; io = io\<lparr>action := 1\<rparr> in
   ht_lookup (hash_table (snd (core_run
      [SetIpv4Addr 16, Call, SetUdpPort 1, SetAction 0, Call] (io, st)))) 16 0 = 1"
proof -
  have "hash_index hash_init 16 1 = 31"
    by (simp add: hash_index_def HASH_MASK_eq hash_eval)
  then show ?thesis
    using mixed_rule_installed [of "snd core_init" "fst core_init\<lparr>action := 1\<rparr>" 16 1 0]
    by (simp add: core_init_def basis_slots)
qed

text \<open>C18: The registers hold one rule. Let the core run on while the constructor programs a list of
  rules, with any stream words arriving and any number of calls between the register writes, but
  never a call on an empty input. Then none of the rules is installed by the time the constructor
  returns, and the first idle call afterwards, however long the core stays busy before it,
  installs the last rule only.\<close>

theorem constructor_without_idle:
  assumes "qdma_ok drv bar" and "list_all (rule_ok inet_addr) (fs @ [f])"
    and "never_idle (concat batches) s"
  shows "let d = device (snd (packet_filter_new (clocked_qdma bar drv) inet_addr storage (fs @ [f])
      \<lparr>device = (batches, s), log_lines = ls\<rparr>)) in
    hash_table (snd (snd d)) = hash_table (snd s) \<and>
    (\<forall>es. never_idle es (snd d) \<longrightarrow> s_axis (fst (core_run es (snd d))) = [] \<longrightarrow>
       hash_table (snd (core_next Call (core_run es (snd d)))) =
         ht_insert (hash_table (snd s)) (rule_ip inet_addr f) (rule_port f) 1)"
proof -
  let ?q = "clocked_qdma bar drv"
  let ?d = "fold (\<lambda>f. rule_writes ?q (filter_mmio bar) (rule_ip inet_addr f) (rule_port f)
      RULE_ACTION_FORWARD) (fs @ [f]) (batches, s)"
  have q: "qdma_ok ?q bar" using assms(1) by simp
  have d: "device (snd (packet_filter_new ?q inet_addr storage (fs @ [f])
      \<lparr>device = (batches, s), log_lines = ls\<rparr>)) = ?d"
    by (simp only: filter_new_device [OF q assms(2)] world.select_convs)
  have "busy (hash_table (snd s)) (batches, s)" using assms(3) by (simp add: busy_def)
  from clocked_rules [OF this, of "fs @ [f]" bar drv "rule_ip inet_addr" rule_port RULE_ACTION_FORWARD]
  have b: "busy (hash_table (snd s)) ?d" "core_cfg (snd ?d) = (rule_ip inet_addr f, rule_port f, 1)"
    by (simp_all del: fold_append)
  then show ?thesis
    unfolding d Let_def using idle_after_busy [OF b] by (simp add: busy_def del: fold_append)
qed

text \<open>Two rules for two hosts, and a core that is handed two words and reads them, for the witness.\<close>

lemma second_rule:
  "rule_ok dotted_addr ''192.168.2.2:8500''"
  "rule_ip dotted_addr ''192.168.2.2:8500'' = 0x0202A8C0"
  "rule_port ''192.168.2.2:8500'' = 0x3421"
proof -
  have f: "find_char (CHR '':'') ''192.168.2.2:8500'' = Some 11" by (simp add: find_char_def)
  have addr: "dotted_addr ''192.168.2.2'' = 0x0202A8C0"
    by (simp add: dotted_addr_def decimal_byte_def read_digits_def char_digit_def isdigit_def)
  have port: "stoi ''8500'' = Inr 8500"
    by (simp add: stoi_def read_digits_def char_digit_def isdigit_def isspace_def)
  show "rule_ok dotted_addr ''192.168.2.2:8500''"
    "rule_ip dotted_addr ''192.168.2.2:8500'' = 0x0202A8C0"
    "rule_port ''192.168.2.2:8500'' = 0x3421"
    by (simp_all add: rule_ok_def rule_ip_def rule_port_def f addr port INADDR_NONE_def
        htons_def bswap16_def)
qed

theorem constructor_without_idle_witness:
  "let p = hd example_packet;
      d = device (snd (packet_filter_new (clocked_qdma 2 bare_driver) dotted_addr undefined
        [''192.168.2.1:8500'', ''192.168.2.2:8500'']
        \<lparr>device = ([[Arrive p, Call], [], [Arrive p], [Call]], core_init), log_lines = []\<rparr>)) in
    hash_table (snd (core_next Call (snd d))) = ht_insert hash_init 0x0202A8C0 0x3421 1"
proof -
  let ?p = "hd example_packet"
  let ?b = "[[Arrive ?p, Call], [], [Arrive ?p], [Call]]"
  let ?d = "device (snd (packet_filter_new (clocked_qdma 2 bare_driver) dotted_addr undefined
      ([''192.168.2.1:8500''] @ [''192.168.2.2:8500'']) \<lparr>device = (?b, core_init), log_lines = []\<rparr>))"
  have q: "qdma_ok (clocked_qdma 2 bare_driver) 2" by simp
  have r: "list_all (rule_ok dotted_addr) ([''192.168.2.1:8500''] @ [''192.168.2.2:8500''])"
    by (simp add: example_rule second_rule)
  have n: "never_idle (concat ?b) core_init"
    by (simp add: input_after core_init_facts del: core_next.simps)
  have "?d = fold (\<lambda>f. rule_writes (clocked_qdma 2 bare_driver) (filter_mmio 2) (rule_ip dotted_addr f) (rule_port f)
      RULE_ACTION_FORWARD) ([''192.168.2.1:8500''] @ [''192.168.2.2:8500'']) (?b, core_init)"
    by (simp only: filter_new_device [OF q r] world.select_convs)
  then have "s_axis (fst (snd ?d)) = []"
    by (simp add: rule_writes_def filter_mmio_def clocked_qdma_def next_batch_def input_after core_init_facts
        del: core_next.simps)
  moreover have h: "hash_table (snd core_init) = hash_init" by (simp add: core_init_def)
  have "\<forall>es. never_idle es (snd ?d) \<longrightarrow> s_axis (fst (core_run es (snd ?d))) = [] \<longrightarrow>
      hash_table (snd (core_next Call (core_run es (snd ?d)))) = ht_insert hash_init 0x0202A8C0 0x3421 1"
    using constructor_without_idle [OF qdma_ok_bare r n, of undefined "[]"]
    by (simp only: Let_def second_rule h) (elim conjE)
  from spec [OF this, of "[]"]
  have "s_axis (fst (snd ?d)) = [] \<Longrightarrow>
      hash_table (snd (core_next Call (snd ?d))) = ht_insert hash_init 0x0202A8C0 0x3421 1"
    by (simp only: never_idle.simps core_run_simps simp_thms)
  ultimately show ?thesis by (simp only: Let_def append_Cons append_Nil)
qed

text \<open>C19: If the core is idle once after each rule, every rule is installed, in order.\<close>

theorem rules_installed_in_turn:
  assumes "s_axis io = []"
  shows "hash_table (snd (fold (\<lambda>((ip, port), act) s.
      core_next Call (rule_writes (core_qdma bar drv) (filter_mmio bar) ip port act s)) rs (io, st))) =
    fold (\<lambda>((ip, port), act) t. ht_insert t ip port (rule_action_num act)) rs (hash_table st)"
  using assms
proof (induction rs arbitrary: io st)
  case (Cons r rs)
  obtain ip port act where r: "r = ((ip, port), act)" by (cases r) (metis surj_pair)
  show ?case
    using Cons idle_after_rule [OF Cons.prems, of ip port act st]
    by (simp add: r rule_writes_core)
qed simp

theorem rules_installed_in_turn_witness:
  "hash_table (snd (fold (\<lambda>((ip, port), act) s.
      core_next Call (rule_writes (core_qdma 2 bare_driver) (filter_mmio 2) ip port act s))
      [((16, 0), RULE_ACTION_FORWARD), ((8, 0), RULE_ACTION_DROP)] core_init)) =
    ht_insert (ht_insert hash_init 16 0 1) 8 0 0"
  using rules_installed_in_turn [of "fst core_init" 2 bare_driver
      "[((16, 0), RULE_ACTION_FORWARD), ((8, 0), RULE_ACTION_DROP)]" "snd core_init"]
  by (simp add: core_init_def)

text \<open>C24: What the server prints as statistics of the filter are the counters the core published,
  and the line of the stream words shows the number of packets.\<close>

theorem show_stats_of_core:
  assumes "core_reachable (io, st)"
  shows "filter_show_stats (core_qdma bar drv) (filter_mmio bar) \<lparr>device = (io, st), log_lines = ls\<rparr> =
    (Inr (), \<lparr>device = (io, st), log_lines = ls @
       filter_stats_lines (pkt_in (stats io)) (pkt_in (stats io)) (pkt_forward (stats io)) (pkt_drop (stats io))\<rparr>)"
  using core_reachable_inv [OF assms]
    core_regs.show_stats_lines [OF filter_mmio_def, of bar drv "\<lparr>device = (io, st), log_lines = ls\<rparr>"]
  by (simp add: core_counter_def core_inv_def stats_ok_def)


theorem show_stats_of_core_witness:
  "filter_show_stats (core_qdma 2 bare_driver) (filter_mmio 2) \<lparr>device = core_init, log_lines = []\<rparr> =
    (Inr (), \<lparr>device = core_init, log_lines = []\<rparr>)"
  using show_stats_of_core [of "fst core_init" "snd core_init" 2 bare_driver "[]"] core_reachable.start
  by (simp add: core_init_def stats_zero_def filter_stats_lines_def)

end
